theory Spec2Isabelle
  imports Complex_Main "HOL-Library.AList" "HOL-Library.Multiset"
begin

section \<open>Python values used by gpu\_monitor.py\<close>

text \<open>
  The exceptions the modelled code can meet. A raise is the left injection of a sum,
  a \<^verbatim>\<open>try ... except Exception\<close> is a case distinction on it.
\<close>

datatype py_error =
  ValueError | OverflowError | ZeroDivisionError | IndexError | KeyError | TypeError
  | TclError

text \<open>Sequencing of two steps, the second skipped when the first raises.\<close>

definition ebind :: "py_error + 'a \<Rightarrow> ('a \<Rightarrow> py_error + 'b) \<Rightarrow> py_error + 'b" where
  "ebind m f = (case m of Inl e \<Rightarrow> Inl e | Inr x \<Rightarrow> f x)"

text \<open>\<^verbatim>\<open>xs[i]\<close> for \<open>0 \<le> i\<close>: an \<^verbatim>\<open>IndexError\<close> past the end.\<close>

definition index :: "'a list \<Rightarrow> nat \<Rightarrow> py_error + 'a" where
  "index xs i = (if i < length xs then Inr (xs ! i) else Inl IndexError)"

subsection \<open>Strings\<close>

text \<open>
  A Python \<^verbatim>\<open>str\<close> is modelled as a list of code points below 256.
  \<^verbatim>\<open>str.isspace\<close> holds there for the code points 9 to 13, 28 to 32, 133 and 160.
\<close>

definition is_space :: "char \<Rightarrow> bool" where
  "is_space c =
     (let n = (of_char c :: nat)
      in (9 \<le> n \<and> n \<le> 13) \<or> (28 \<le> n \<and> n \<le> 32) \<or> n = 133 \<or> n = 160)"

definition strip :: "string \<Rightarrow> string" where
  "strip s = rev (dropWhile is_space (rev (dropWhile is_space s)))"

text \<open>
  \<^verbatim>\<open>int\<close> and \<^verbatim>\<open>float\<close> skip less around a number than \<^verbatim>\<open>str.strip\<close> removes: the
  code points 9 to 13 and 32, and 133 and 160, which they first turn into spaces.
  The separators 28 to 31 are not skipped.
\<close>

definition is_num_space :: "char \<Rightarrow> bool" where
  "is_num_space c =
     (let n = (of_char c :: nat)
      in (9 \<le> n \<and> n \<le> 13) \<or> n = 32 \<or> n = 133 \<or> n = 160)"

definition num_strip :: "string \<Rightarrow> string" where
  "num_strip s = rev (dropWhile is_num_space (rev (dropWhile is_num_space s)))"

text \<open>\<^verbatim>\<open>s.split(sep)\<close> for a one-character separator: never the empty list.\<close>

fun split_on :: "char \<Rightarrow> string \<Rightarrow> string list" where
  "split_on sep [] = [[]]"
| "split_on sep (c # cs) =
     (if c = sep then [] # split_on sep cs
      else (case split_on sep cs of
              [] \<Rightarrow> [[c]]
            | w # ws \<Rightarrow> (c # w) # ws))"

definition digit_val :: "char \<Rightarrow> int option" where
  "digit_val c =
     (let n = (of_char c :: int)
      in if 48 \<le> n \<and> n \<le> 57 then Some (n - 48) else None)"

definition is_digit :: "char \<Rightarrow> bool" where
  "is_digit c = (digit_val c \<noteq> None)"

text \<open>
  Underscores in numeric literals: CPython accepts one only between two digits and
  removes it before the number is read; any other underscore is a \<^verbatim>\<open>ValueError\<close>.
  The first argument tells whether the previous character was a digit.
\<close>

fun drop_underscores :: "bool \<Rightarrow> string \<Rightarrow> string option" where
  "drop_underscores prev [] = Some []"
| "drop_underscores prev (c # cs) =
     (if c = CHR ''_'' then
        (case cs of
           [] \<Rightarrow> None
         | d # _ \<Rightarrow> if prev \<and> is_digit d then drop_underscores False cs else None)
      else map_option ((#) c) (drop_underscores (is_digit c) cs))"

text \<open>The longest prefix of decimal digits: its value, its length, and the rest.\<close>

fun take_digits :: "int \<Rightarrow> nat \<Rightarrow> string \<Rightarrow> int \<times> nat \<times> string" where
  "take_digits acc cnt [] = (acc, cnt, [])"
| "take_digits acc cnt (c # cs) =
     (case digit_val c of
        Some d \<Rightarrow> take_digits (acc * 10 + d) (Suc cnt) cs
      | None \<Rightarrow> (acc, cnt, c # cs))"

text \<open>An optional sign: whether it was a minus, and the rest.\<close>

fun take_sign :: "string \<Rightarrow> bool \<times> string" where
  "take_sign [] = (False, [])"
| "take_sign (c # cs) =
     (if c = CHR ''-'' then (True, cs)
      else if c = CHR ''+'' then (False, cs)
      else (False, c # cs))"

subsection \<open>Integers\<close>

text \<open>
  Python's \<^verbatim>\<open>int\<close> is unbounded: HOL's \<open>int\<close>. \<^verbatim>\<open>str(n)\<close> is \<open>show_int\<close>;
  \<open>show_nat\<close> prints a number that is not negative.
\<close>

definition show_digit :: "int \<Rightarrow> char" where
  "show_digit d = ''0123456789'' ! nat d"

function show_nat :: "int \<Rightarrow> string" where
  "show_nat n =
     (if n < 10 then [show_digit n]
      else show_nat (n div 10) @ [show_digit (n mod 10)])"
  by pat_completeness auto
termination
  by (relation "measure nat") auto

declare show_nat.simps [simp del]

definition show_int :: "int \<Rightarrow> string" where
  "show_int i = (if i < 0 then CHR ''-'' # show_nat (- i) else show_nat i)"

text \<open>
  \<^verbatim>\<open>int(s)\<close> for a string, base 10: surrounding whitespace, an optional sign, then
  digits with single underscores between them; anything else is a \<^verbatim>\<open>ValueError\<close>.
  So is a literal of more than \<open>max_str_digits\<close> digits, leading zeros counted: the
  limit of the interpreter, 4300 unless it has been changed, which this program does
  not do.
\<close>

definition max_str_digits :: nat where
  "max_str_digits = 4300"

definition py_int_of_str :: "string \<Rightarrow> py_error + int" where
  "py_int_of_str s =
     (case take_sign (num_strip s) of
        (neg, body) \<Rightarrow>
          (case drop_underscores False body of
             None \<Rightarrow> Inl ValueError
           | Some ds \<Rightarrow>
               (case take_digits 0 0 ds of
                  (v, cnt, rest) \<Rightarrow>
                    if cnt = 0 \<or> rest \<noteq> [] \<or> max_str_digits < cnt then Inl ValueError
                    else Inr (if neg then - v else v))))"

subsection \<open>Floats\<close>

text \<open>
  A Python \<^verbatim>\<open>float\<close> is an IEEE 754 double. \<open>Fin s m e\<close> is the double of value
  \<open>(-1) ^ s * m * 2 ^ e\<close> with \<open>0 \<le> m\<close>, kept with its sign bit, so that \<^verbatim>\<open>-0.0\<close>
  is a value of its own; \<open>Inf s\<close> is an infinity and \<open>NaN\<close> a not-a-number.
\<close>

datatype pyfloat = Fin bool int int | Inf bool | NaN

function bit_length :: "int \<Rightarrow> nat" where
  "bit_length n = (if n \<le> 0 then 0 else Suc (bit_length (n div 2)))"
  by pat_completeness auto
termination
  by (relation "measure nat") auto

declare bit_length.simps [simp del]

text \<open>
  The integer nearest to \<open>num / den\<close>, a tie going to the even one
  (\<open>0 \<le> num\<close>, \<open>0 < den\<close>).
\<close>

definition round_half_even :: "int \<Rightarrow> int \<Rightarrow> int" where
  "round_half_even num den =
     (let k = num div den; r = num mod den
      in if den < 2 * r \<or> (2 * r = den \<and> odd k) then k + 1 else k)"

text \<open>The floor of the binary logarithm of \<open>p / q\<close>, for positive \<open>p\<close> and \<open>q\<close>.\<close>

definition floor_log2 :: "int \<Rightarrow> int \<Rightarrow> int" where
  "floor_log2 p q =
     (let d = int (bit_length p) - int (bit_length q)
      in if (if 0 \<le> d then q * 2 ^ nat d \<le> p else q \<le> p * 2 ^ nat (- d))
         then d else d - 1)"

text \<open>
  The double nearest to \<open>p / q\<close> (round to nearest, ties to even), for \<open>0 \<le> p\<close> and
  \<open>0 < q\<close>: 53 significant bits for a normal number, a multiple of \<open>2 ^ - 1074\<close> below
  \<open>2 ^ - 1022\<close>, an infinity when the rounded value reaches \<open>2 ^ 1024\<close>. The result
  is \<open>mantissa p q * 2 ^ ulp_exp p q\<close>.
\<close>

definition ulp_exp :: "int \<Rightarrow> int \<Rightarrow> int" where
  "ulp_exp p q = max (floor_log2 p q) (- 1022) - 52"

definition mantissa :: "int \<Rightarrow> int \<Rightarrow> int" where
  "mantissa p q =
     (if 0 \<le> ulp_exp p q then round_half_even p (q * 2 ^ nat (ulp_exp p q))
      else round_half_even (p * 2 ^ nat (- ulp_exp p q)) q)"

definition round_ratio :: "bool \<Rightarrow> int \<Rightarrow> int \<Rightarrow> pyfloat" where
  "round_ratio neg p q =
     (if p = 0 then Fin neg 0 0
      else if 971 < ulp_exp p q \<or> (ulp_exp p q = 971 \<and> 2 ^ 53 \<le> mantissa p q) then Inf neg
      else Fin neg (mantissa p q) (ulp_exp p q))"

text \<open>
  \<^verbatim>\<open>a / b\<close> on two ints is the correctly rounded quotient; it raises on a zero divisor
  and when the quotient is too large for a float.
\<close>

definition int_truediv :: "int \<Rightarrow> int \<Rightarrow> py_error + pyfloat" where
  "int_truediv a b =
     (if b = 0 then Inl ZeroDivisionError
      else case round_ratio ((a < 0) \<noteq> (b < 0)) \<bar>a\<bar> \<bar>b\<bar> of
             Inf _ \<Rightarrow> Inl OverflowError
           | f \<Rightarrow> Inr f)"

text \<open>\<^verbatim>\<open>x * y\<close> on two floats never raises: an overflow is an infinity.\<close>

fun float_mul :: "pyfloat \<Rightarrow> pyfloat \<Rightarrow> pyfloat" where
  "float_mul (Fin s1 m1 e1) (Fin s2 m2 e2) =
     (let e = e1 + e2
      in if 0 \<le> e then round_ratio (s1 \<noteq> s2) (m1 * m2 * 2 ^ nat e) 1
         else round_ratio (s1 \<noteq> s2) (m1 * m2) (2 ^ nat (- e)))"
| "float_mul (Fin s1 m1 e1) (Inf s2) = (if m1 = 0 then NaN else Inf (s1 \<noteq> s2))"
| "float_mul (Inf s1) (Fin s2 m2 e2) = (if m2 = 0 then NaN else Inf (s1 \<noteq> s2))"
| "float_mul (Inf s1) (Inf s2) = Inf (s1 \<noteq> s2)"
| "float_mul _ _ = NaN"

text \<open>\<^verbatim>\<open>int(x)\<close> on a float truncates toward zero and raises on an infinity or a NaN.\<close>

fun py_int_of_float :: "pyfloat \<Rightarrow> py_error + int" where
  "py_int_of_float (Fin s m e) =
     (let a = (if 0 \<le> e then m * 2 ^ nat e else m div 2 ^ nat (- e))
      in Inr (if s then - a else a))"
| "py_int_of_float (Inf s) = Inl OverflowError"
| "py_int_of_float NaN = Inl ValueError"

text \<open>
  \<^verbatim>\<open>f"{x:.2f}"\<close>: the exact value of the double rounded to two decimals (ties to
  even), the sign bit printed also in front of a zero.
\<close>

fun fmt_2f :: "pyfloat \<Rightarrow> string" where
  "fmt_2f (Fin s m e) =
     (let n = (if 0 \<le> e then m * 100 * 2 ^ nat e
               else round_half_even (m * 100) (2 ^ nat (- e)))
      in (if s then ''-'' else []) @ show_nat (n div 100) @ ''.''
         @ [show_digit (n mod 100 div 10), show_digit (n mod 10)])"
| "fmt_2f (Inf s) = (if s then ''-inf'' else ''inf'')"
| "fmt_2f NaN = ''nan''"

text \<open>Comparison with a lower-case word, ignoring the case of the ASCII letters.\<close>

definition ci_eq :: "string \<Rightarrow> string \<Rightarrow> bool" where
  "ci_eq s w =
     list_all2 (\<lambda>c l. c = l \<or> (65 \<le> (of_char c :: nat) \<and> (of_char c :: nat) \<le> 90
                               \<and> (of_char c :: nat) + 32 = of_char l)) s w"

text \<open>
  A decimal literal \<^verbatim>\<open>digits [. digits] [e [sign] digits]\<close> with at least one digit in
  the mantissa: the pair \<open>(d, k)\<close> stands for \<open>d * 10 ^ k\<close>.
\<close>

definition parse_decimal :: "string \<Rightarrow> (int \<times> int) option" where
  "parse_decimal s =
     (case take_digits 0 0 s of
        (ip, n1, r1) \<Rightarrow>
          (case (case r1 of
                   [] \<Rightarrow> (ip, 0, [])
                 | c # cs \<Rightarrow> if c = CHR ''.'' then take_digits ip 0 cs else (ip, 0, r1)) of
             (d, n2, r2) \<Rightarrow>
               if n1 + n2 = 0 then None
               else (case r2 of
                       [] \<Rightarrow> Some (d, - int n2)
                     | c # cs \<Rightarrow>
                         if c = CHR ''e'' \<or> c = CHR ''E'' then
                           (case take_sign cs of
                              (eneg, r3) \<Rightarrow>
                                (case take_digits 0 0 r3 of
                                   (ev, n3, r4) \<Rightarrow>
                                     if n3 = 0 \<or> r4 \<noteq> [] then None
                                     else Some (d, (if eneg then - ev else ev) - int n2)))
                         else None)))"

text \<open>
  \<^verbatim>\<open>float(s)\<close> for a string: underscores between digits are removed, surrounding
  whitespace is skipped, then a sign and \<^verbatim>\<open>inf\<close>, \<^verbatim>\<open>infinity\<close>, \<^verbatim>\<open>nan\<close> or a decimal
  literal, rounded to the nearest double; anything else is a \<^verbatim>\<open>ValueError\<close>.
\<close>

definition py_float :: "string \<Rightarrow> py_error + pyfloat" where
  "py_float s =
     (case drop_underscores False s of
        None \<Rightarrow> Inl ValueError
      | Some t \<Rightarrow>
          (case take_sign (num_strip t) of
             (neg, body) \<Rightarrow>
               if ci_eq body ''inf'' \<or> ci_eq body ''infinity'' then Inr (Inf neg)
               else if ci_eq body ''nan'' then Inr NaN
               else (case parse_decimal body of
                       None \<Rightarrow> Inl ValueError
                     | Some (d, k) \<Rightarrow>
                         Inr (if 0 \<le> k then round_ratio neg (d * 10 ^ nat k) 1
                              else round_ratio neg d (10 ^ nat (- k))))))"

section \<open>The parser: \<^verbatim>\<open>parse_gpu_data\<close>\<close>

text \<open>
  One record per GPU, the dictionary built at lines 368 to 375. A dictionary is an
  association list in insertion order; \<open>AList.update\<close> is the assignment
  \<^verbatim>\<open>d[k] = v\<close>: it replaces the value of a key that is present, in place, and appends
  a new key at the end.
\<close>

record gpu_info =
  name :: string
  temperature :: "int option"
  utilization :: "int option"
  memory_used :: "int option"
  memory_total :: "int option"
  power_draw :: "pyfloat option"

type_synonym sample = "(string \<times> gpu_info) list"

text \<open>The two local conversions of lines 357 to 366: every exception becomes \<^verbatim>\<open>None\<close>.\<close>

definition to_int :: "string \<Rightarrow> int option" where
  "to_int v =
     (case ebind (py_float v) py_int_of_float of
        Inl _ \<Rightarrow> None
      | Inr i \<Rightarrow> Some i)"

definition to_float :: "string \<Rightarrow> pyfloat option" where
  "to_float v =
     (case py_float v of
        Inl _ \<Rightarrow> None
      | Inr f \<Rightarrow> Some f)"

text \<open>The body of the loop over the lines (lines 352 to 375).\<close>

definition parse_line :: "string \<Rightarrow> sample \<Rightarrow> py_error + sample" where
  "parse_line line gpu_info =
     (if strip line = [] then Inr gpu_info
      else
        let parts = map strip (split_on CHR '','' line)
        in if 7 \<le> length parts then
             ebind (index parts 0) (\<lambda>gpu_id.
             ebind (index parts 1) (\<lambda>p1.
             ebind (index parts 2) (\<lambda>p2.
             ebind (index parts 3) (\<lambda>p3.
             ebind (index parts 4) (\<lambda>p4.
             ebind (index parts 5) (\<lambda>p5.
             ebind (index parts 6) (\<lambda>p6.
               Inr (AList.update gpu_id
                      \<lparr>name = p1,
                       temperature = to_int p2,
                       utilization = to_int p3,
                       memory_used = to_int p4,
                       memory_total = to_int p5,
                       power_draw = to_float p6\<rparr> gpu_info))))))))
           else Inr gpu_info)"

fun parse_lines :: "string list \<Rightarrow> sample \<Rightarrow> py_error + sample" where
  "parse_lines [] gpu_info = Inr gpu_info"
| "parse_lines (line # lines) gpu_info =
     ebind (parse_line line gpu_info) (parse_lines lines)"

definition parse_gpu_data :: "string \<Rightarrow> py_error + sample" where
  "parse_gpu_data data =
     (if data = [] then Inr []
      else parse_lines (split_on (CHR 0x0A) (strip data)) [])"

section \<open>The dashboard\<close>

text \<open>
  The widgets of one card that the code writes after their creation, with the grid
  row of the card. The frame's title and the static captions are not modelled.
\<close>

record card =
  row :: nat
  temp_text :: string
  temp_style :: string
  util_bar :: int
  util_text :: string
  mem_bar :: int
  mem_text :: string
  power_text :: string

type_synonym cards = "(string \<times> card) list"

definition deg_c :: string where
  "deg_c = [CHR 0x20, CHR 0xB0, CHR ''C'']"

definition get_temp_style :: "int option \<Rightarrow> string" where
  "get_temp_style temperature_c =
     (case temperature_c of
        None \<Rightarrow> ''Muted.TLabel''
      | Some t \<Rightarrow>
          if 80 \<le> t then ''TempHigh.TLabel''
          else if 70 \<le> t then ''TempWarn.TLabel''
          else ''TempOk.TLabel'')"

text \<open>\<^verbatim>\<open>_create_gpu_card\<close> (lines 222 to 259).\<close>

definition create_gpu_card :: "string \<Rightarrow> gpu_info \<Rightarrow> nat \<Rightarrow> card" where
  "create_gpu_card gpu_id info row_index =
     \<lparr>row = row_index,
      temp_text = ''--'' @ deg_c,
      temp_style = get_temp_style (temperature info),
      util_bar = 0,
      util_text = ''0%'',
      mem_bar = 0,
      mem_text = ''0 / 0 MB (0%)'',
      power_text = ''-- W''\<rparr>"

text \<open>
  The memory percentage of line 287,
  \<^verbatim>\<open>int((mem_used_i / mem_total_i) * 100) if mem_total_i else 0\<close>.
\<close>

definition mem_pct :: "int \<Rightarrow> int \<Rightarrow> py_error + int" where
  "mem_pct mem_used_i mem_total_i =
     (if mem_total_i \<noteq> 0 then
        ebind (int_truediv mem_used_i mem_total_i)
          (\<lambda>q. py_int_of_float (float_mul q (Fin False 100 0)))
      else Inr 0)"

text \<open>\<^verbatim>\<open>x or 0\<close> on an optional int.\<close>

definition or_zero :: "int option \<Rightarrow> int" where
  "or_zero x = (case x of None \<Rightarrow> 0 | Some i \<Rightarrow> if i = 0 then 0 else i)"

text \<open>\<^verbatim>\<open>float(x)\<close> on an optional float: a \<^verbatim>\<open>TypeError\<close> on \<^verbatim>\<open>None\<close>.\<close>

definition py_float_of :: "pyfloat option \<Rightarrow> py_error + pyfloat" where
  "py_float_of x = (case x of None \<Rightarrow> Inl TypeError | Some f \<Rightarrow> Inr f)"

text \<open>
  \<^verbatim>\<open>_update_gpu_card\<close> (lines 261 to 297). The only statement outside a
  \<^verbatim>\<open>try\<close> that can raise is the memory percentage.
\<close>

definition update_gpu_card :: "card \<Rightarrow> gpu_info \<Rightarrow> py_error + card" where
  "update_gpu_card widgets info =
     (let w1 = (case temperature info of
                  Some t \<Rightarrow> widgets\<lparr>temp_text := show_int t @ deg_c,
                                     temp_style := get_temp_style (Some t)\<rparr>
                | None \<Rightarrow> widgets\<lparr>temp_text := ''--'' @ deg_c,
                                   temp_style := ''Muted.TLabel''\<rparr>);
          util_val = (case utilization info of Some u \<Rightarrow> u | None \<Rightarrow> 0);
          w2 = w1\<lparr>util_bar := max 0 (min util_val 100),
                  util_text := show_int util_val @ ''%''\<rparr>;
          mem_used = or_zero (memory_used info);
          mem_total = or_zero (memory_total info);
          mem_used_i = mem_used;
          mem_total_i = (if 0 < mem_total then mem_total else 0)
      in ebind (mem_pct mem_used_i mem_total_i) (\<lambda>pct.
           let w3 = w2\<lparr>mem_bar := max 0 (min pct 100),
                       mem_text := show_int mem_used_i @ '' / '' @ show_int mem_total_i
                                   @ '' MB ('' @ show_int pct @ ''%)''\<rparr>
           in Inr (w3\<lparr>power_text :=
                         (case py_float_of (power_draw info) of
                            Inr power_f \<Rightarrow> fmt_2f power_f @ '' W''
                          | Inl _ \<Rightarrow> ''-- W'')\<rparr>)))"

text \<open>
  What the dashboard does to the widgets, in order: \<open>Clear\<close> is
  \<^verbatim>\<open>clear_dashboard\<close>, \<open>Create\<close> a call of \<^verbatim>\<open>_create_gpu_card\<close> with its row,
  \<open>Update\<close> a call of \<^verbatim>\<open>_update_gpu_card\<close>.
\<close>

datatype ui_event = Clear | Create string nat | Update string

fun map_err :: "('a \<Rightarrow> py_error + 'b) \<Rightarrow> 'a list \<Rightarrow> py_error + 'b list" where
  "map_err f [] = Inr []"
| "map_err f (x # xs) = ebind (f x) (\<lambda>y. ebind (map_err f xs) (\<lambda>ys. Inr (y # ys)))"

text \<open>
  \<^verbatim>\<open>sorted(gpu_data.keys(), key=lambda x: int(x))\<close>: the keys are computed first, one
  \<^verbatim>\<open>int(x)\<close> per element, then the elements are sorted by them, stably.
\<close>

definition sorted_ids :: "sample \<Rightarrow> py_error + string list" where
  "sorted_ids gpu_data =
     ebind (map_err py_int_of_str (map fst gpu_data))
       (\<lambda>ks. Inr (map snd (sort_key fst (zip ks (map fst gpu_data)))))"

text \<open>The loop of lines 212 to 215.\<close>

fun create_cards ::
  "string list \<Rightarrow> sample \<Rightarrow> nat \<Rightarrow> cards \<times> ui_event list \<Rightarrow> py_error + cards \<times> ui_event list"
where
  "create_cards [] gpu_data row_index d = Inr d"
| "create_cards (gpu_id # ids) gpu_data row_index (gpu_cards, evs) =
     (case map_of gpu_data gpu_id of
        None \<Rightarrow> Inl KeyError
      | Some info \<Rightarrow>
          create_cards ids gpu_data (Suc row_index)
            (AList.update gpu_id (create_gpu_card gpu_id info row_index) gpu_cards,
             evs @ [Create gpu_id row_index]))"

text \<open>The loop of lines 218 to 220.\<close>

fun update_cards :: "sample \<Rightarrow> cards \<times> ui_event list \<Rightarrow> py_error + cards \<times> ui_event list" where
  "update_cards [] d = Inr d"
| "update_cards ((gpu_id, info) # items) (gpu_cards, evs) =
     (case map_of gpu_cards gpu_id of
        None \<Rightarrow> update_cards items (gpu_cards, evs)
      | Some widgets \<Rightarrow>
          ebind (update_gpu_card widgets info) (\<lambda>w.
            update_cards items (AList.update gpu_id w gpu_cards, evs @ [Update gpu_id])))"

text \<open>
  \<^verbatim>\<open>build_or_update_dashboard\<close> (lines 204 to 220), on the cards the dashboard has:
  the cards it leaves and what it did. When it raises, the cards are left as they
  were at that moment, which this result does not show.
\<close>

definition build_or_update_dashboard ::
  "cards \<Rightarrow> sample \<Rightarrow> py_error + cards \<times> ui_event list"
where
  "build_or_update_dashboard gpu_cards gpu_data =
     ebind (if set (map fst gpu_cards) \<noteq> set (map fst gpu_data) then
              ebind (sorted_ids gpu_data)
                (\<lambda>ids. create_cards ids gpu_data 0 ([], [Clear]))
            else Inr (gpu_cards, []))
       (update_cards gpu_data)"

section \<open>One refresh cycle: \<^verbatim>\<open>refresh_gpu_data\<close>\<close>

text \<open>
  What a call of \<^verbatim>\<open>subprocess.run\<close> can give back to the code: a completed process
  with its return code and its standard output, or one of the two exceptions the
  code catches.
\<close>

datatype proc_result = Completed int string | TimeoutExpired | FileNotFoundError

text \<open>
  What one cycle receives from outside: the run of \<^verbatim>\<open>nvidia-smi --version\<close>, the run
  of the query, and the time of day printed in the status line. The run of the
  detailed dump only fills two text tabs, which are not modelled.
\<close>

record cycle_env =
  version_run :: proc_result
  query_run :: proc_result
  clock :: string

text \<open>
  The part of the object the cycle reads and writes: the last sample, the cards of
  the dashboard (their keys are the known device ids), the text of the status label
  and the error dialogs shown so far.
\<close>

record monitor_state =
  gpu_data :: sample
  gpu_cards :: cards
  status_label :: string
  dialogs :: "(string \<times> string) list"

definition init_state :: monitor_state where
  "init_state = \<lparr>gpu_data = [], gpu_cards = [], status_label = ''Ready'', dialogs = []\<rparr>"

definition check_nvidia_smi :: "proc_result \<Rightarrow> monitor_state \<Rightarrow> monitor_state \<times> bool" where
  "check_nvidia_smi r st =
     (case r of
        Completed returncode out \<Rightarrow>
          if returncode = 0 then (st\<lparr>status_label := ''nvidia-smi available''\<rparr>, True)
          else (st\<lparr>status_label := ''nvidia-smi not available''\<rparr>, False)
      | _ \<Rightarrow> (st\<lparr>status_label := ''nvidia-smi not found''\<rparr>, False))"

definition get_gpu_data :: "proc_result \<Rightarrow> string option" where
  "get_gpu_data r =
     (case r of
        Completed returncode out \<Rightarrow> if returncode = 0 then Some out else None
      | _ \<Rightarrow> None)"

definition refresh_gpu_data :: "cycle_env \<Rightarrow> monitor_state \<Rightarrow> py_error + monitor_state" where
  "refresh_gpu_data env st =
     (case check_nvidia_smi (version_run env) st of
        (st1, ok) \<Rightarrow>
          if \<not> ok then
            Inr (st1\<lparr>dialogs := dialogs st1 @ [(''Error'', ''nvidia-smi is not available'')]\<rparr>)
          else
            ebind (case get_gpu_data (query_run env) of
                     None \<Rightarrow> Inr st1
                   | Some basic_data \<Rightarrow>
                       if basic_data \<noteq> [] then
                         ebind (parse_gpu_data basic_data) (\<lambda>g. Inr (st1\<lparr>gpu_data := g\<rparr>))
                       else Inr st1) (\<lambda>st2.
            ebind (build_or_update_dashboard (gpu_cards st2) (gpu_data st2)) (\<lambda>(cs, evs).
              Inr (st2\<lparr>gpu_cards := cs, status_label := ''Last updated: '' @ clock env\<rparr>))))"

section \<open>The monitoring loop: \<^verbatim>\<open>monitor_loop\<close>\<close>

text \<open>
  \<^verbatim>\<open>time.sleep(n)\<close> on an int: a \<^verbatim>\<open>ValueError\<close> when \<open>n\<close> is negative, an
  \<^verbatim>\<open>OverflowError\<close> above the largest length \<open>tmax\<close> the platform can wait;
  otherwise it waits \<open>n\<close> seconds.
\<close>

definition time_sleep :: "int \<Rightarrow> int \<Rightarrow> py_error + int" where
  "time_sleep tmax n =
     (if n < 0 then Inl ValueError
      else if tmax < n then Inl OverflowError
      else Inr n)"

text \<open>
  What the loop does, in order: it schedules a refresh, it waits, and it prints the
  exception that ends it.
\<close>

datatype loop_event = Refresh_scheduled | Sleep int | Error_printed py_error

text \<open>
  The loop of lines 473 to 482. Each element of the list is what one turn of the loop
  finds: the flag \<^verbatim>\<open>is_monitoring\<close> at its test, and what
  \<^verbatim>\<open>self.update_interval.get()\<close> gives, a value or an exception. The loop is followed
  as long as the list lasts.
\<close>

fun monitor_loop :: "int \<Rightarrow> (bool \<times> (py_error + int)) list \<Rightarrow> loop_event list" where
  "monitor_loop tmax [] = []"
| "monitor_loop tmax ((is_monitoring, interval) # rest) =
     (if \<not> is_monitoring then []
      else Refresh_scheduled #
           (case ebind interval (time_sleep tmax) of
              Inl e \<Rightarrow> [Error_printed e]
            | Inr n \<Rightarrow> Sleep n # monitor_loop tmax rest))"

section \<open>Notions used to state the properties\<close>

text \<open>
  What a line of the text contributes to the sample: nothing when it has fewer than
  seven fields, else the id and the record made of its first seven fields.
\<close>

definition line_record :: "string \<Rightarrow> (string \<times> gpu_info) option" where
  "line_record line =
     (let parts = map strip (split_on CHR '','' line)
      in if 7 \<le> length parts then
           Some (parts ! 0,
                 \<lparr>name = parts ! 1,
                  temperature = to_int (parts ! 2),
                  utilization = to_int (parts ! 3),
                  memory_used = to_int (parts ! 4),
                  memory_total = to_int (parts ! 5),
                  power_draw = to_float (parts ! 6)\<rparr>)
         else None)"

definition add_record :: "string \<Rightarrow> sample \<Rightarrow> sample" where
  "add_record line g =
     (case line_record line of
        None \<Rightarrow> g
      | Some (k, r) \<Rightarrow> AList.update k r g)"

text \<open>The lines the parser goes through.\<close>

definition lines_of :: "string \<Rightarrow> string list" where
  "lines_of data = (if data = [] then [] else split_on (CHR 0x0A) (strip data))"

text \<open>The numeric value of an id that \<^verbatim>\<open>int\<close> accepts.\<close>

definition id_num :: "string \<Rightarrow> int" where
  "id_num k = (case py_int_of_str k of Inr i \<Rightarrow> i | Inl _ \<Rightarrow> 0)"

definition numeric_id :: "string \<Rightarrow> bool" where
  "numeric_id k = (case py_int_of_str k of Inr _ \<Rightarrow> True | Inl _ \<Rightarrow> False)"

text \<open>
  A record can be drawn when its memory percentage is a number, that is, when
  \<^verbatim>\<open>_update_gpu_card\<close> does not raise on it.
\<close>

definition renders :: "gpu_info \<Rightarrow> bool" where
  "renders info =
     (case mem_pct (or_zero (memory_used info))
             (if 0 < or_zero (memory_total info) then or_zero (memory_total info) else 0) of
        Inr _ \<Rightarrow> True
      | Inl _ \<Rightarrow> False)"

text \<open>A run that did not give an output: the tool is missing, it timed out, or it failed.\<close>

definition failed :: "proc_result \<Rightarrow> bool" where
  "failed r = (case r of Completed returncode out \<Rightarrow> returncode \<noteq> 0 | _ \<Rightarrow> True)"

text \<open>
  The dashboard shows the last sample: one card per id of the sample, each card
  showing the record of its id.
\<close>

definition in_sync :: "monitor_state \<Rightarrow> bool" where
  "in_sync st =
     (distinct (map fst (gpu_data st)) \<and> distinct (map fst (gpu_cards st)) \<and>
      set (map fst (gpu_cards st)) = set (map fst (gpu_data st)) \<and>
      (\<forall>(k, w) \<in> set (gpu_cards st).
         case map_of (gpu_data st) k of
           None \<Rightarrow> False
         | Some info \<Rightarrow> update_gpu_card w info = Inr w))"

text \<open>
  The value of a finite double, as a rational number, and truncation toward zero.
\<close>

definition float_val :: "pyfloat \<Rightarrow> rat" where
  "float_val x =
     (case x of
        Fin s m e \<Rightarrow> (if s then - 1 else 1) * of_int m * 2 powi e
      | _ \<Rightarrow> 0)"

definition trunc :: "rat \<Rightarrow> int" where
  "trunc x = (if 0 \<le> x then \<lfloor>x\<rfloor> else \<lceil>x\<rceil>)"

text \<open>What a card shows once a record has been drawn on it.\<close>

definition redraw :: "card \<Rightarrow> gpu_info \<Rightarrow> card" where
  "redraw w info = (case update_gpu_card w info of Inr w' \<Rightarrow> w' | Inl _ \<Rightarrow> w)"

section \<open>Basic facts\<close>

lemma ebind_Inr [simp]: "ebind (Inr x) f = f x"
  by (simp add: ebind_def)

lemma ebind_Inl [simp]: "ebind (Inl e) f = Inl e"
  by (simp add: ebind_def)

lemma ebind_eq_Inr: "ebind m f = Inr y \<longleftrightarrow> (\<exists>x. m = Inr x \<and> f x = Inr y)"
  by (cases m) simp_all

lemma index_in_range [simp]: "i < length xs \<Longrightarrow> index xs i = Inr (xs ! i)"
  by (simp add: index_def)

lemma split_on_not_Nil [simp]: "split_on sep s \<noteq> []"
  by (induction s) (auto split: list.splits)

lemma length_split_on: "length (split_on sep s) = Suc (length (filter (\<lambda>c. c = sep) s))"
  by (induction s) (auto split: list.splits)

lemma strip_Nil_iff: "strip s = [] \<longleftrightarrow> (\<forall>c \<in> set s. is_space c)"
proof
  assume "strip s = []"
  then have all: "\<forall>c \<in> set (dropWhile is_space s). is_space c"
    by (simp add: strip_def dropWhile_eq_Nil_conv)
  have "dropWhile is_space s = []"
  proof (rule ccontr)
    assume ne: "dropWhile is_space s \<noteq> []"
    then have "\<not> is_space (hd (dropWhile is_space s))"
      by (rule hd_dropWhile)
    moreover have "hd (dropWhile is_space s) \<in> set (dropWhile is_space s)"
      using ne by simp
    ultimately show False
      using all by blast
  qed
  then show "\<forall>c \<in> set s. is_space c"
    by (simp add: dropWhile_eq_Nil_conv)
next
  assume "\<forall>c \<in> set s. is_space c"
  then show "strip s = []"
    by (auto simp: strip_def dest: set_dropWhileD)
qed

lemma comma_not_space: "\<not> is_space CHR '',''"
  by (simp add: is_space_def)

lemma fields_strip_not_Nil:
  assumes "2 \<le> length (split_on CHR '','' line)"
  shows "strip line \<noteq> []"
proof -
  from assms have "filter (\<lambda>c. c = CHR '','') line \<noteq> []"
    by (auto simp: length_split_on)
  then have "CHR '','' \<in> set line"
    by (auto simp: filter_empty_conv)
  then show ?thesis
    using comma_not_space by (auto simp: strip_Nil_iff)
qed

section \<open>The parser never raises\<close>

lemma parse_line_eq: "parse_line line g = Inr (add_record line g)"
proof (cases "7 \<le> length (split_on CHR '','' line)")
  case True
  then have "strip line \<noteq> []"
    by (intro fields_strip_not_Nil) simp
  with True show ?thesis
    by (simp add: parse_line_def add_record_def line_record_def Let_def)
next
  case False
  then show ?thesis
    by (simp add: parse_line_def add_record_def line_record_def Let_def)
qed

lemma parse_lines_eq: "parse_lines ls g = Inr (fold add_record ls g)"
  by (induction ls arbitrary: g) (simp_all add: parse_line_eq)

lemma parse_gpu_data_eq: "parse_gpu_data data = Inr (fold add_record (lines_of data) [])"
  by (simp add: parse_gpu_data_def lines_of_def parse_lines_eq)

lemma distinct_add_record: "distinct (map fst g) \<Longrightarrow> distinct (map fst (add_record line g))"
  by (auto simp: add_record_def distinct_update split: option.splits)

lemma distinct_fold_add_record:
  "distinct (map fst g) \<Longrightarrow> distinct (map fst (fold add_record ls g))"
  by (induction ls arbitrary: g) (simp_all add: distinct_add_record)

lemma parse_gpu_data_distinct: "parse_gpu_data data = Inr s \<Longrightarrow> distinct (map fst s)"
  by (auto simp: parse_gpu_data_eq intro: distinct_fold_add_record)

lemma map_of_add_record:
  "map_of (add_record line g) = map_of (case line_record line of None \<Rightarrow> g | Some p \<Rightarrow> p # g)"
  by (auto simp: add_record_def update_conv' split: option.splits)

lemma map_of_fold_add_record:
  "map_of (fold add_record ls g) = map_of (rev (List.map_filter line_record ls) @ g)"
proof (induction ls arbitrary: g)
  case Nil
  show ?case by (simp add: List.map_filter_simps)
next
  case (Cons l ls)
  have "map_of (fold add_record (l # ls) g)
        = map_of (rev (List.map_filter line_record ls) @ add_record l g)"
    using Cons.IH by simp
  also have "\<dots> = map_of (add_record l g) ++ map_of (rev (List.map_filter line_record ls))"
    by (simp add: map_of_append)
  finally show ?case
    by (simp add: map_of_add_record List.map_filter_simps map_of_append split: option.splits)
qed

lemma fold_add_record_dropped:
  "\<forall>l \<in> set ls. line_record l = None \<Longrightarrow> fold add_record ls g = g"
  by (induction ls arbitrary: g) (simp_all add: add_record_def)

lemma set_map_filter: "set (List.map_filter f xs) = {y. \<exists>x \<in> set xs. f x = Some y}"
  by (induction xs) (auto simp: List.map_filter_simps split: option.splits)

lemma map_filter_append:
  "List.map_filter f (xs @ ys) = List.map_filter f xs @ List.map_filter f ys"
  by (simp add: List.map_filter_def)

lemma map_of_rev_records_None:
  assumes "\<forall>l \<in> set ls. \<forall>r. line_record l \<noteq> Some (k, r)"
  shows "map_of (rev (List.map_filter line_record ls)) k = None"
proof -
  have "k \<notin> fst ` set (rev (List.map_filter line_record ls))"
    using assms by (auto simp: set_map_filter)
  then show ?thesis
    by (simp add: map_of_eq_None_iff)
qed

lemma fold_add_record_last:
  assumes "ls = pre @ line # post" and "line_record line = Some (k, r)"
    and "\<forall>l \<in> set post. \<forall>r'. line_record l \<noteq> Some (k, r')"
  shows "map_of (fold add_record ls g) k = Some r"
proof -
  have "map_of (rev (List.map_filter line_record post)) k = None"
    using assms(3) by (rule map_of_rev_records_None)
  then have "map_of (rev (List.map_filter line_record (pre @ line # post)) @ g) k = Some r"
    using assms(2)
    by (simp add: map_filter_append List.map_filter_simps map_of_append map_add_def)
  then show ?thesis
    by (simp only: assms(1) map_of_fold_add_record)
qed

lemma parse_line_fields:
  assumes "7 \<le> length (split_on CHR '','' line)"
  shows "\<exists>g'. parse_line line g = Inr g' \<and>
           map_of g' (map strip (split_on CHR '','' line) ! 0) =
             Some \<lparr>name = map strip (split_on CHR '','' line) ! 1,
                    temperature = to_int (map strip (split_on CHR '','' line) ! 2),
                    utilization = to_int (map strip (split_on CHR '','' line) ! 3),
                    memory_used = to_int (map strip (split_on CHR '','' line) ! 4),
                    memory_total = to_int (map strip (split_on CHR '','' line) ! 5),
                    power_draw = to_float (map strip (split_on CHR '','' line) ! 6)\<rparr> \<and>
           (\<forall>k. k \<noteq> map strip (split_on CHR '','' line) ! 0 \<longrightarrow> map_of g' k = map_of g k)"
  using assms
  by (simp add: parse_line_eq add_record_def line_record_def Let_def update_conv')

lemma to_int_fails: "py_float v = Inl e \<Longrightarrow> to_int v = None"
  by (simp add: to_int_def)


section \<open>Facts about the cards\<close>

lemma or_zero_simps [simp]: "or_zero None = 0" "or_zero (Some i) = i"
  by (simp_all add: or_zero_def)

lemma update_gpu_card_Inr:
  "update_gpu_card w info = Inr w' \<longleftrightarrow>
   (\<exists>pct. mem_pct (or_zero (memory_used info))
             (if 0 < or_zero (memory_total info) then or_zero (memory_total info) else 0) = Inr pct \<and>
      w' = w\<lparr>temp_text := (case temperature info of Some t \<Rightarrow> show_int t @ deg_c | None \<Rightarrow> ''--'' @ deg_c),
             temp_style := get_temp_style (temperature info),
             util_bar := max 0 (min (case utilization info of Some u \<Rightarrow> u | None \<Rightarrow> 0) 100),
             util_text := show_int (case utilization info of Some u \<Rightarrow> u | None \<Rightarrow> 0) @ ''%'',
             mem_bar := max 0 (min pct 100),
             mem_text := show_int (or_zero (memory_used info)) @ '' / ''
                         @ show_int (if 0 < or_zero (memory_total info) then or_zero (memory_total info) else 0)
                         @ '' MB ('' @ show_int pct @ ''%)'',
             power_text := (case power_draw info of Some f \<Rightarrow> fmt_2f f @ '' W'' | None \<Rightarrow> ''-- W'')\<rparr>)"
  by (cases "temperature info"; cases "power_draw info")
     (auto simp: update_gpu_card_def Let_def ebind_eq_Inr py_float_of_def get_temp_style_def)

lemma update_gpu_card_renders:
  "(\<exists>w'. update_gpu_card w info = Inr w') \<longleftrightarrow> renders info"
  by (auto simp: update_gpu_card_Inr renders_def split: sum.splits)

lemma update_gpu_card_idem:
  assumes "update_gpu_card w info = Inr w'"
  shows "update_gpu_card w' info = Inr w'"
  using assms by (auto simp: update_gpu_card_Inr)

lemma update_gpu_card_row:
  "update_gpu_card w info = Inr w' \<Longrightarrow> row w' = row w"
  by (auto simp: update_gpu_card_Inr)

lemma show_nat_not_Nil [simp]: "show_nat n \<noteq> []"
  by (subst show_nat.simps) simp

lemma show_nat_0 [simp]: "show_nat 0 = ''0''"
  by (simp add: show_nat.simps show_digit_def)

lemma show_int_0 [simp]: "show_int 0 = ''0''"
  by (simp add: show_int_def)



lemma mem_pct_zero_total [simp]: "mem_pct u 0 = Inr 0"
  by (simp add: mem_pct_def)

lemma mem_pct_zero_used: "t \<noteq> 0 \<Longrightarrow> mem_pct 0 t = Inr 0"
  by (simp add: mem_pct_def int_truediv_def round_ratio_def)

section \<open>Facts about the numbers\<close>

lemma digit_cases: "0 \<le> d \<Longrightarrow> d < 10 \<Longrightarrow> d \<in> {0, 1, 2, 3, 4, 5, 6, 7, 8, 9 :: int}"
  by simp presburger

lemma of_char_show_digit: "0 \<le> d \<Longrightarrow> d < 10 \<Longrightarrow> of_char (show_digit d) = 48 + d"
  by (drule (1) digit_cases) (auto simp: show_digit_def)

lemma show_digit_inj:
  assumes "0 \<le> a" "a < 10" "0 \<le> b" "b < 10" "show_digit a = show_digit b"
  shows "a = b"
proof -
  have "(of_char (show_digit a) :: int) = of_char (show_digit b)"
    using assms(5) by simp
  then show ?thesis
    using assms(1-4) by (simp add: of_char_show_digit)
qed

lemma show_digit_not_minus: "0 \<le> d \<Longrightarrow> d < 10 \<Longrightarrow> show_digit d \<noteq> CHR ''-''"
  by (drule (1) digit_cases) (auto simp: show_digit_def)

lemma show_nat_small: "n < 10 \<Longrightarrow> show_nat n = [show_digit n]"
  by (subst show_nat.simps) simp

lemma show_nat_large:
  "\<not> n < 10 \<Longrightarrow> show_nat n = show_nat (n div 10) @ [show_digit (n mod 10)]"
  by (subst show_nat.simps) simp

lemma show_nat_inj:
  "0 \<le> a \<Longrightarrow> 0 \<le> b \<Longrightarrow> show_nat a = show_nat b \<Longrightarrow> a = b"
proof (induction a arbitrary: b rule: show_nat.induct)
  case (1 a)
  show ?case
  proof (cases "a < 10")
    case True
    show ?thesis
    proof (cases "b < 10")
      case b: True
      with True "1.prems" show ?thesis
        by (auto simp: show_nat_small intro: show_digit_inj)
    next
      case False
      have "length (show_nat b) = length (show_nat a)"
        using "1.prems"(3) by simp
      with True have "length (show_nat b) = 1"
        by (simp add: show_nat_small)
      moreover have "show_nat (b div 10) \<noteq> []"
        by simp
      ultimately show ?thesis
        using False by (simp add: show_nat_large)
    qed
  next
    case False
    show ?thesis
    proof (cases "b < 10")
      case True
      have "length (show_nat a) = length (show_nat b)"
        using "1.prems"(3) by simp
      with True have "length (show_nat a) = 1"
        by (simp add: show_nat_small)
      moreover have "show_nat (a div 10) \<noteq> []"
        by simp
      ultimately show ?thesis
        using False by (simp add: show_nat_large)
    next
      case b: False
      from "1.prems"(3) False b
      have eq: "show_nat (a div 10) = show_nat (b div 10)"
        and dg: "show_digit (a mod 10) = show_digit (b mod 10)"
        by (simp_all add: show_nat_large)
      have "a div 10 = b div 10"
        using False "1.prems"(1,2) eq by (intro "1.IH") simp_all
      moreover have "a mod 10 = b mod 10"
        using dg by (intro show_digit_inj) simp_all
      ultimately show ?thesis
        by (metis mult_div_mod_eq)
    qed
  qed
qed

lemma hd_show_nat: "0 \<le> n \<Longrightarrow> hd (show_nat n) \<noteq> CHR ''-''"
proof (induction n rule: show_nat.induct)
  case (1 n)
  show ?case
  proof (cases "n < 10")
    case True
    with "1.prems" show ?thesis
      by (simp add: show_nat_small show_digit_not_minus)
  next
    case False
    with "1.prems" "1.IH" have "hd (show_nat (n div 10)) \<noteq> CHR ''-''"
      by simp
    with False show ?thesis
      by (simp add: show_nat_large)
  qed
qed

lemma show_int_inj: "show_int a = show_int b \<Longrightarrow> a = b"
proof -
  assume eq: "show_int a = show_int b"
  have neg: False if "x < 0" "0 \<le> y" "show_int x = show_int y" for x y
  proof -
    from that have "CHR ''-'' # show_nat (- x) = show_nat y"
      by (simp add: show_int_def)
    then have "hd (show_nat y) = CHR ''-''"
      by (metis list.sel(1))
    with hd_show_nat [OF that(2)] show False by simp
  qed
  show ?thesis
  proof (cases "a < 0"; cases "b < 0")
    assume "a < 0" "b < 0"
    with eq have "show_nat (- a) = show_nat (- b)"
      by (simp add: show_int_def)
    with \<open>a < 0\<close> \<open>b < 0\<close> have "- a = - b"
      by (intro show_nat_inj) simp_all
    then show ?thesis by simp
  next
    assume "a < 0" "\<not> b < 0"
    with neg [of a b] eq show ?thesis by simp
  next
    assume "\<not> a < 0" "b < 0"
    with neg [of b a] eq show ?thesis by simp
  next
    assume "\<not> a < 0" "\<not> b < 0"
    with eq show ?thesis
      by (intro show_nat_inj) (simp_all add: show_int_def)
  qed
qed

lemma bit_length_pos: "0 < n \<Longrightarrow> bit_length n = Suc (bit_length (n div 2))"
  by (subst bit_length.simps) simp

lemma bit_length_nonpos: "n \<le> 0 \<Longrightarrow> bit_length n = 0"
  by (subst bit_length.simps) simp

lemma bit_length_bounds:
  "0 < n \<Longrightarrow> 2 ^ (bit_length n - 1) \<le> n \<and> n < 2 ^ bit_length n"
proof (induction n rule: bit_length.induct)
  case (1 n)
  show ?case
  proof (cases "n div 2 = 0")
    case True
    with "1.prems" have "n = 1" by presburger
    then show ?thesis
      by (simp add: bit_length_pos bit_length_nonpos)
  next
    case False
    with "1.prems" have pos: "0 < n div 2" by presburger
    obtain k where k: "bit_length (n div 2) = Suc k"
      using bit_length_pos [OF pos] by blast
    from "1.IH" "1.prems" pos have ih: "2 ^ k \<le> n div 2" "n div 2 < 2 ^ Suc k"
      by (simp_all add: k)
    have lo: "2 * (n div 2) \<le> n" and hi: "n \<le> 2 * (n div 2) + 1"
      by presburger+
    have "(2::int) ^ Suc k \<le> n"
      using ih(1) lo by simp
    moreover have "n < 2 ^ Suc (Suc k)"
      using ih(2) hi by simp
    ultimately show ?thesis
      using "1.prems" by (simp add: bit_length_pos k)
  qed
qed

lemma floor_log2_lower:
  assumes p: "0 < p" and q: "0 < q" and e: "0 \<le> floor_log2 p q"
  shows "q * 2 ^ nat (floor_log2 p q) \<le> p"
proof -
  let ?d = "int (bit_length p) - int (bit_length q)"
  show ?thesis
  proof (cases "0 \<le> ?d \<and> q * 2 ^ nat ?d \<le> p")
    case True
    then show ?thesis
      by (simp add: floor_log2_def Let_def)
  next
    case False
    have fl: "floor_log2 p q = ?d - 1"
      using False e by (auto simp: floor_log2_def Let_def split: if_splits)
    with e have d: "1 \<le> ?d" by simp
    have bq: "q < 2 ^ bit_length q"
      using bit_length_bounds [OF q] by simp
    have bp: "2 ^ (bit_length p - 1) \<le> p"
      using bit_length_bounds [OF p] by simp
    have ex: "bit_length p - 1 = bit_length q + nat (?d - 1)"
      using d by linarith
    have "q * 2 ^ nat (?d - 1) \<le> 2 ^ bit_length q * 2 ^ nat (?d - 1)"
      using bq by (simp add: mult_right_mono)
    also have "\<dots> = 2 ^ (bit_length q + nat (?d - 1))"
      by (simp only: power_add)
    also have "\<dots> = 2 ^ (bit_length p - 1)"
      by (simp only: ex)
    also have "\<dots> \<le> p"
      by (rule bp)
    finally show ?thesis
      by (simp add: fl)
  qed
qed

lemma round_half_even_le:
  assumes "0 < q" and "a \<le> N * q"
  shows "round_half_even a q \<le> N"
proof -
  have "a div q \<le> (N * q) div q"
    using assms(2,1) by (rule zdiv_mono1)
  then have d: "a div q \<le> N"
    using assms(1) by simp
  show ?thesis
  proof (cases "a div q = N")
    case True
    then have "q * N + a mod q = a"
      using mult_div_mod_eq [of q a] by simp
    with assms(2) have "a mod q \<le> 0"
      by (simp add: mult.commute)
    moreover have "0 \<le> a mod q"
      using assms(1) by simp
    ultimately have "a mod q = 0"
      by simp
    with True \<open>0 < q\<close> show ?thesis
      by (simp add: round_half_even_def Let_def)
  next
    case False
    with d have "a div q + 1 \<le> N" by simp
    then show ?thesis
      using d by (simp add: round_half_even_def Let_def)
  qed
qed

lemma round_half_even_nonneg:
  assumes "0 < q" and "0 \<le> a"
  shows "0 \<le> round_half_even a q"
  using assms by (simp add: round_half_even_def Let_def pos_imp_zdiv_nonneg_iff)

lemma ulp_exp_le:
  assumes p: "0 < p" and q: "0 < q" and le: "p \<le> N * q" and N: "N < 2 ^ 53"
  shows "ulp_exp p q \<le> 0"
proof -
  have "floor_log2 p q \<le> 52"
  proof (rule ccontr)
    assume "\<not> floor_log2 p q \<le> 52"
    then have e: "53 \<le> floor_log2 p q" by simp
    then have "q * 2 ^ nat (floor_log2 p q) \<le> p"
      using floor_log2_lower [OF p q] by simp
    moreover have "(2::int) ^ 53 \<le> 2 ^ nat (floor_log2 p q)"
      by (rule power_increasing) (use e in simp_all)
    then have "q * 2 ^ 53 \<le> q * 2 ^ nat (floor_log2 p q)"
      using q by (simp only: mult_le_cancel_left_pos)
    moreover have "N * q < 2 ^ 53 * q"
      using N q by simp
    ultimately show False
      using le by (simp add: mult.commute)
  qed
  then show ?thesis
    by (simp add: ulp_exp_def)
qed

lemma mantissa_nonneg: "0 \<le> p \<Longrightarrow> 0 < q \<Longrightarrow> 0 \<le> mantissa p q"
  by (auto simp: mantissa_def intro!: round_half_even_nonneg)

lemma mantissa_le:
  assumes q: "0 < q" and le: "p \<le> N * q" and ex: "ulp_exp p q \<le> 0"
  shows "mantissa p q \<le> N * 2 ^ nat (- ulp_exp p q)"
proof (cases "0 \<le> ulp_exp p q")
  case True
  with ex have z: "ulp_exp p q = 0" by simp
  show ?thesis
    using round_half_even_le [OF q le] by (simp add: mantissa_def z)
next
  case False
  have "p * 2 ^ nat (- ulp_exp p q) \<le> (N * 2 ^ nat (- ulp_exp p q)) * q"
    using le by (simp add: mult.commute mult.left_commute mult_left_mono)
  then show ?thesis
    using False round_half_even_le [OF q] by (simp add: mantissa_def)
qed

lemma round_ratio_le:
  assumes p: "0 \<le> p" and q: "0 < q" and le: "p \<le> N * q" and N: "N < 2 ^ 53"
  shows "\<exists>n ex. round_ratio s p q = Fin s n ex \<and> ex \<le> 0 \<and> 0 \<le> n \<and> n \<le> N * 2 ^ nat (- ex)"
proof (cases "p = 0")
  case True
  moreover have "0 \<le> N * q"
    using p le by simp
  then have "0 \<le> N"
    using q by (simp add: zero_le_mult_iff)
  ultimately show ?thesis
    by (simp add: round_ratio_def)
next
  case False
  with p have pp: "0 < p" by simp
  have ex0: "ulp_exp p q \<le> 0"
    using pp q le N by (rule ulp_exp_le)
  then have "round_ratio s p q = Fin s (mantissa p q) (ulp_exp p q)"
    using False by (simp add: round_ratio_def)
  then show ?thesis
    using ex0 mantissa_nonneg [OF p q] mantissa_le [OF q le ex0] by blast
qed

lemma round_ratio_not_NaN [simp]: "round_ratio s p q \<noteq> NaN"
  by (simp add: round_ratio_def)

lemma round_ratio_mantissa:
  assumes "0 \<le> p" "0 < q" "round_ratio s p q = Fin s' n ex"
  shows "0 \<le> n"
proof (cases "p = 0")
  case True
  with assms show ?thesis by (simp add: round_ratio_def)
next
  case False
  with assms(3) have "n = mantissa p q"
    by (simp add: round_ratio_def split: if_splits)
  then show ?thesis
    using assms(1,2) by (simp add: mantissa_nonneg)
qed

lemma py_int_of_float_trunc:
  assumes "0 \<le> m"
  shows "py_int_of_float (Fin s m e) = Inr (trunc (float_val (Fin s m e)))"
proof -
  let ?a = "if 0 \<le> e then m * 2 ^ nat e else m div 2 ^ nat (- e)"
  let ?v = "of_int m * 2 powi e :: rat"
  have v0: "0 \<le> ?v"
    using assms by simp
  have fl: "\<lfloor>?v\<rfloor> = ?a"
  proof (cases "0 \<le> e")
    case True
    then have "?v = of_int (m * 2 ^ nat e)"
      by (simp add: power_int_def)
    then show ?thesis
      using True by (simp del: of_int_mult of_int_power)
  next
    case False
    then have "?v = of_int m / of_int (2 ^ nat (- e))"
      by (simp add: power_int_def field_simps)
    then have "\<lfloor>?v\<rfloor> = m div 2 ^ nat (- e)"
      by (simp only: floor_divide_of_int_eq)
    then show ?thesis
      using False by simp
  qed
  show ?thesis
  proof (cases s)
    case False
    then show ?thesis
      using v0 fl by (simp add: float_val_def trunc_def Let_def)
  next
    case True
    have "trunc (- ?v) = - \<lfloor>?v\<rfloor>"
      using v0 by (auto simp: trunc_def ceiling_def)
    then show ?thesis
      using True fl by (simp add: float_val_def Let_def)
  qed
qed

lemma int_truediv_mantissa:
  assumes "int_truediv a b = Inr (Fin s n ex)"
  shows "0 \<le> n"
proof -
  from assms have b: "b \<noteq> 0" and r: "round_ratio ((a < 0) \<noteq> (b < 0)) \<bar>a\<bar> \<bar>b\<bar> = Fin s n ex"
    by (auto simp: int_truediv_def split: if_splits pyfloat.splits)
  show ?thesis
    by (rule round_ratio_mantissa [OF _ _ r]) (use b in simp_all)
qed

lemma float_mul_mantissa:
  assumes "0 \<le> m1" "0 \<le> m2" "float_mul (Fin s1 m1 e1) (Fin s2 m2 e2) = Fin s n ex"
  shows "0 \<le> n"
proof (cases "0 \<le> e1 + e2")
  case True
  with assms(3) have "round_ratio (s1 \<noteq> s2) (m1 * m2 * 2 ^ nat (e1 + e2)) 1 = Fin s n ex"
    by (simp add: Let_def)
  then show ?thesis
    by (rule round_ratio_mantissa [rotated 2]) (use assms in simp_all)
next
  case False
  with assms(3) have "round_ratio (s1 \<noteq> s2) (m1 * m2) (2 ^ nat (- (e1 + e2))) = Fin s n ex"
    by (simp add: Let_def)
  then show ?thesis
    by (rule round_ratio_mantissa [rotated 2]) (use assms in simp_all)
qed

lemma mem_pct_is_trunc:
  assumes "t \<noteq> 0" and "mem_pct u t = Inr p"
  shows "\<exists>q. int_truediv u t = Inr q \<and> p = trunc (float_val (float_mul q (Fin False 100 0)))"
proof -
  from assms obtain q where q: "int_truediv u t = Inr q"
    and p: "py_int_of_float (float_mul q (Fin False 100 0)) = Inr p"
    by (auto simp: mem_pct_def ebind_eq_Inr)
  from q obtain s n ex where f: "q = Fin s n ex"
    by (cases q) (auto simp: int_truediv_def split: if_splits pyfloat.splits)
  with q have n: "0 \<le> n"
    using int_truediv_mantissa by blast
  from p obtain s' n' ex' where m: "float_mul q (Fin False 100 0) = Fin s' n' ex'"
    by (cases "float_mul q (Fin False 100 0)") auto
  have "0 \<le> n'"
    using float_mul_mantissa [OF n _ m [unfolded f]] by simp
  then have "py_int_of_float (Fin s' n' ex') = Inr (trunc (float_val (Fin s' n' ex')))"
    by (rule py_int_of_float_trunc)
  with p m q show ?thesis
    by simp
qed

lemma mem_pct_range:
  assumes u: "0 \<le> u" and le: "u \<le> t"
  shows "\<exists>p. mem_pct u t = Inr p \<and> 0 \<le> p \<and> p \<le> 100"
proof (cases "t = 0")
  case True
  then show ?thesis by simp
next
  case False
  with u le have t: "0 < t" by simp
  obtain n ex where q: "round_ratio False u t = Fin False n ex"
    and ex: "ex \<le> 0" and n0: "0 \<le> n" and n1: "n \<le> 1 * 2 ^ nat (- ex)"
    using round_ratio_le [of u t 1 False] u t le by auto
  have d: "int_truediv u t = Inr (Fin False n ex)"
    using u t q by (simp add: int_truediv_def)
  obtain n' ex' where m: "float_mul (Fin False n ex) (Fin False 100 0) = Fin False n' ex'"
    and ex': "ex' \<le> 0" and n0': "0 \<le> n'" and n1': "n' \<le> 100 * 2 ^ nat (- ex')"
  proof (cases "0 \<le> ex")
    case True
    with ex have z: "ex = 0" by simp
    with n1 have "n * 100 \<le> 100 * 1" by simp
    with n0 show ?thesis
      using round_ratio_le [of "n * 100" 1 100 False] that by (auto simp: z)
  next
    case False
    have "n * 100 \<le> 100 * 2 ^ nat (- ex)"
      using n1 by simp
    with n0 show ?thesis
      using round_ratio_le [of "n * 100" "2 ^ nat (- ex)" 100 False] that False by auto
  qed
  let ?p = "if 0 \<le> ex' then n' * 2 ^ nat ex' else n' div 2 ^ nat (- ex')"
  have p: "mem_pct u t = Inr ?p"
    using False d m by (simp add: mem_pct_def Let_def)
  have "0 \<le> ?p"
    using n0' by (simp add: pos_imp_zdiv_nonneg_iff)
  moreover have "?p \<le> 100"
  proof (cases "0 \<le> ex'")
    case True
    with ex' n1' show ?thesis by simp
  next
    case False
    have "n' div 2 ^ nat (- ex') \<le> (100 * 2 ^ nat (- ex')) div 2 ^ nat (- ex')"
      using n1' by (rule zdiv_mono1) simp
    with False show ?thesis by simp
  qed
  ultimately show ?thesis
    using p by blast
qed

lemma mem_pct_no_zero_division: "mem_pct u t \<noteq> Inl ZeroDivisionError"
proof (cases "t = 0")
  case True
  then show ?thesis by simp
next
  case False
  show ?thesis
  proof (cases "int_truediv u t")
    case (Inl e)
    with False have "e = OverflowError"
      by (auto simp: int_truediv_def split: if_splits pyfloat.splits)
    with Inl False show ?thesis
      by (simp add: mem_pct_def)
  next
    case (Inr q)
    with False show ?thesis
      by (cases "float_mul q (Fin False 100 0)") (auto simp: mem_pct_def Let_def)
  qed
qed

lemma bit_length_mult_pow2: "0 < m \<Longrightarrow> bit_length (m * 2 ^ n) = bit_length m + n"
proof (induction n)
  case 0
  then show ?case by simp
next
  case (Suc n)
  then have "0 < m * 2 ^ Suc n"
    by simp
  then have "bit_length (m * 2 ^ Suc n) = Suc (bit_length (m * 2 ^ Suc n div 2))"
    by (rule bit_length_pos)
  also have "m * 2 ^ Suc n div 2 = m * 2 ^ n"
    by simp
  finally show ?case
    using Suc by simp
qed

lemma bit_length_1: "bit_length 1 = 1"
  by (simp add: bit_length_pos bit_length_nonpos)

lemma bit_length_100: "bit_length 100 = 7"
  by code_simp

lemma floor_log2_big: "floor_log2 (2 ^ 1023) 1 = 1023"
proof -
  have "bit_length (1 * 2 ^ 1023) = bit_length 1 + 1023"
    by (rule bit_length_mult_pow2) simp
  then have "bit_length (2 ^ 1023) = 1024"
    by (simp add: bit_length_1)
  then show ?thesis
    by (simp add: floor_log2_def bit_length_1)
qed

lemma floor_log2_bigger: "floor_log2 (2 ^ 52 * 100 * 2 ^ 971) 1 = 1029"
proof -
  have "bit_length (100 * 2 ^ 1023) = bit_length 100 + 1023"
    by (rule bit_length_mult_pow2) simp
  then have "bit_length (2 ^ 52 * 100 * 2 ^ 971) = 1030"
    by (simp add: bit_length_100)
  then show ?thesis
    by (simp add: floor_log2_def bit_length_1)
qed

lemma int_truediv_big: "int_truediv (2 ^ 1023) 1 = Inr (Fin False (2 ^ 52) 971)"
proof -
  have u: "ulp_exp (2 ^ 1023) 1 = 971"
    using floor_log2_big by (simp add: ulp_exp_def)
  have m: "mantissa (2 ^ 1023) 1 = 2 ^ 52"
    using u by (simp add: mantissa_def round_half_even_def)
  have "round_ratio False (2 ^ 1023) 1 = Fin False (2 ^ 52) 971"
    using u m by (simp add: round_ratio_def)
  then show ?thesis
    by (simp add: int_truediv_def)
qed

lemma float_mul_big: "float_mul (Fin False (2 ^ 52) 971) (Fin False 100 0) = Inf False"
proof -
  have u: "ulp_exp (2 ^ 52 * 100 * 2 ^ 971) 1 = 977"
    using floor_log2_bigger by (simp add: ulp_exp_def)
  have "round_ratio False (2 ^ 52 * 100 * 2 ^ 971) 1 = Inf False"
    using u by (simp add: round_ratio_def)
  then show ?thesis
    by simp
qed

lemma mem_pct_overflow: "mem_pct (2 ^ 1023) 1 = Inl OverflowError"
  using int_truediv_big float_mul_big by (simp add: mem_pct_def del: float_mul.simps)

section \<open>Facts about the monitoring loop\<close>

lemma monitor_loop_step:
  "monitor_loop tmax ((m, i) # rest) =
     (if \<not> m then []
      else case i of
             Inl e \<Rightarrow> [Refresh_scheduled, Error_printed e]
           | Inr n \<Rightarrow>
               if n < 0 then [Refresh_scheduled, Error_printed ValueError]
               else if tmax < n then [Refresh_scheduled, Error_printed OverflowError]
               else Refresh_scheduled # Sleep n # monitor_loop tmax rest)"
  by (cases i) (simp_all add: time_sleep_def)

lemma monitor_loop_sleeps:
  "Sleep d \<in> set (monitor_loop tmax env) \<Longrightarrow>
   0 \<le> d \<and> d \<le> tmax \<and> (\<exists>m. (m, Inr d) \<in> set env)"
proof (induction env)
  case Nil
  then show ?case by simp
next
  case (Cons a env)
  obtain m i where a: "a = (m, i)"
    by (cases a)
  show ?case
  proof (cases i)
    case (Inl e)
    with Cons.prems show ?thesis
      by (simp add: a monitor_loop_step del: monitor_loop.simps split: if_splits)
  next
    case (Inr n)
    with Cons.prems have ok: "m" "0 \<le> n" "n \<le> tmax"
      and d: "d = n \<or> Sleep d \<in> set (monitor_loop tmax env)"
      by (simp_all add: a monitor_loop_step del: monitor_loop.simps split: if_splits)
    from d show ?thesis
    proof
      assume "d = n"
      with ok Inr show ?thesis
        by (auto simp: a)
    next
      assume "Sleep d \<in> set (monitor_loop tmax env)"
      then have "0 \<le> d \<and> d \<le> tmax \<and> (\<exists>m. (m, Inr d) \<in> set env)"
        by (rule Cons.IH)
      then show ?thesis
        by auto
    qed
  qed
qed

section \<open>Facts about the dashboard\<close>

lemma map_err_Inr:
  "(\<And>x. x \<in> set xs \<Longrightarrow> f x = Inr (g x)) \<Longrightarrow> map_err f xs = Inr (map g xs)"
  by (induction xs) simp_all

lemma map_err_Inl:
  "x \<in> set xs \<Longrightarrow> f x = Inl e \<Longrightarrow> (\<And>y. y \<in> set xs \<Longrightarrow> f y = Inl e \<or> (\<exists>z. f y = Inr z))
   \<Longrightarrow> map_err f xs = Inl e"
proof (induction xs)
  case Nil
  then show ?case by simp
next
  case (Cons a xs)
  show ?case
  proof (cases "f a")
    case (Inl e')
    with Cons.prems(3) [of a] show ?thesis by auto
  next
    case (Inr z)
    with Cons.prems have "x \<in> set xs" by auto
    then have "map_err f xs = Inl e"
      using Cons.prems by (intro Cons.IH) auto
    with Inr show ?thesis by simp
  qed
qed

lemma py_int_of_str_error: "py_int_of_str k = Inl e \<Longrightarrow> e = ValueError"
  by (auto simp: py_int_of_str_def split: prod.splits option.splits if_splits)

lemma numeric_id_Inr: "numeric_id k \<Longrightarrow> py_int_of_str k = Inr (id_num k)"
  by (auto simp: numeric_id_def id_num_def split: sum.splits)

lemma not_numeric_id_Inl: "\<not> numeric_id k \<Longrightarrow> py_int_of_str k = Inl ValueError"
  by (auto simp: numeric_id_def split: sum.splits dest: py_int_of_str_error)

lemma insort_key_map:
  "insort_key g (h x) (map h ys) = map h (insort_key (\<lambda>y. g (h y)) x ys)"
  by (induction ys) simp_all

lemma sort_key_map: "sort_key g (map h xs) = map h (sort_key (\<lambda>y. g (h y)) xs)"
  by (induction xs) (simp_all add: insort_key_map)

lemma sorted_ids_numeric:
  assumes "\<forall>k \<in> set (map fst gd). numeric_id k"
  shows "sorted_ids gd = Inr (sort_key id_num (map fst gd))"
proof -
  let ?ks = "map fst gd"
  have "map_err py_int_of_str ?ks = Inr (map id_num ?ks)"
    by (intro map_err_Inr numeric_id_Inr) (use assms in auto)
  moreover have "zip (map id_num ?ks) ?ks = map (\<lambda>k. (id_num k, k)) ?ks"
    by (induction gd) simp_all
  moreover have "map snd (sort_key fst (map (\<lambda>k. (id_num k, k)) ?ks)) = sort_key id_num ?ks"
    by (simp add: sort_key_map o_def)
  ultimately show ?thesis
    by (simp add: sorted_ids_def)
qed

lemma sorted_ids_not_numeric:
  assumes "\<not> (\<forall>k \<in> set (map fst gd). numeric_id k)"
  shows "sorted_ids gd = Inl ValueError"
proof -
  from assms obtain k where k: "k \<in> set (map fst gd)" "\<not> numeric_id k"
    by blast
  have "map_err py_int_of_str (map fst gd) = Inl ValueError"
  proof (rule map_err_Inl [OF k(1)])
    show "py_int_of_str k = Inl ValueError"
      using k(2) by (rule not_numeric_id_Inl)
    show "py_int_of_str y = Inl ValueError \<or> (\<exists>z. py_int_of_str y = Inr z)" for y
      by (cases "py_int_of_str y") (auto dest: py_int_of_str_error)
  qed
  then show ?thesis
    by (simp add: sorted_ids_def)
qed

lemma update_fresh: "k \<notin> fst ` set al \<Longrightarrow> AList.update k v al = al @ [(k, v)]"
  by (induction al) auto

lemma create_cards_eq:
  assumes "distinct ids" and "set ids \<subseteq> fst ` set gd" and "set ids \<inter> fst ` set cs = {}"
  shows "create_cards ids gd r (cs, evs) =
         Inr (cs @ map (\<lambda>(i, k). (k, create_gpu_card k (the (map_of gd k)) i)) (List.enumerate r ids),
              evs @ map (\<lambda>(i, k). Create k i) (List.enumerate r ids))"
  using assms
proof (induction ids arbitrary: r cs evs)
  case Nil
  then show ?case by simp
next
  case (Cons k ids)
  from Cons.prems(2) obtain info where info: "map_of gd k = Some info"
    by (cases "map_of gd k") (auto simp: map_of_eq_None_iff)
  have fresh: "k \<notin> fst ` set cs"
    using Cons.prems(3) by auto
  let ?cs = "cs @ [(k, create_gpu_card k info r)]"
  have "create_cards (k # ids) gd r (cs, evs) =
        create_cards ids gd (Suc r) (?cs, evs @ [Create k r])"
    using info fresh by (simp add: update_fresh)
  also have "\<dots> = Inr (?cs @ map (\<lambda>(i, k). (k, create_gpu_card k (the (map_of gd k)) i))
                    (List.enumerate (Suc r) ids),
              (evs @ [Create k r]) @ map (\<lambda>(i, k). Create k i) (List.enumerate (Suc r) ids))"
    using Cons.prems by (intro Cons.IH) auto
  finally show ?case
    using info by simp
qed


lemma update_gpu_card_redraw: "renders info \<Longrightarrow> update_gpu_card w info = Inr (redraw w info)"
  using update_gpu_card_renders [of w info] by (auto simp: redraw_def)

lemma update_present:
  assumes "distinct (map fst al)" and "map_of al k = Some w"
  shows "AList.update k v al = map (\<lambda>(k', w'). (k', if k' = k then v else w')) al"
  using assms
proof (induction al)
  case Nil
  then show ?case by simp
next
  case (Cons a al)
  obtain k' w' where a: "a = (k', w')"
    by (cases a)
  show ?case
  proof (cases "k' = k")
    case True
    with Cons.prems a have "k \<notin> fst ` set al"
      by auto
    then have "map (\<lambda>(k', w'). (k', if k' = k then v else w')) al = al"
      by (induction al) auto
    with True a show ?thesis
      by simp
  next
    case False
    with Cons a show ?thesis
      by simp
  qed
qed

lemma update_cards_eq:
  assumes "distinct (map fst items)" and "distinct (map fst cs)"
    and "\<forall>(k, info) \<in> set items. k \<in> fst ` set cs \<longrightarrow> renders info"
  shows "update_cards items (cs, evs) =
         Inr (map (\<lambda>(k, w). (k, case map_of items k of None \<Rightarrow> w | Some info \<Rightarrow> redraw w info)) cs,
              evs @ map Update (filter (\<lambda>k. k \<in> fst ` set cs) (map fst items)))"
  using assms
proof (induction items arbitrary: cs evs)
  case Nil
  then show ?case by simp
next
  case (Cons a items)
  obtain k info where a: "a = (k, info)"
    by (cases a)
  have d: "distinct (map fst items)" and kn: "k \<notin> fst ` set items"
    using Cons.prems(1) a by auto
  have none: "map_of items k = None"
    using kn by (simp add: map_of_eq_None_iff)
  show ?case
  proof (cases "map_of cs k")
    case None
    then have nk: "k \<notin> fst ` set cs"
      by (simp add: map_of_eq_None_iff)
    have "update_cards (a # items) (cs, evs) = update_cards items (cs, evs)"
      using None a by simp
    also have "\<dots> = Inr (map (\<lambda>(k, w). (k, case map_of items k of None \<Rightarrow> w
                                              | Some info \<Rightarrow> redraw w info)) cs,
              evs @ map Update (filter (\<lambda>k. k \<in> fst ` set cs) (map fst items)))"
      using d Cons.prems(2,3) by (intro Cons.IH) auto
    also have "map (\<lambda>(k, w). (k, case map_of items k of None \<Rightarrow> w | Some info \<Rightarrow> redraw w info)) cs
             = map (\<lambda>(k, w). (k, case map_of (a # items) k of None \<Rightarrow> w
                                  | Some info \<Rightarrow> redraw w info)) cs"
    proof -
      have "k' \<noteq> k" if "(k', w') \<in> set cs" for k' w'
        using that nk by force
      then show ?thesis
        by (auto simp: a)
    qed
    finally show ?thesis
      using nk by (simp add: a)
  next
    case (Some w)
    then have ik: "k \<in> fst ` set cs"
      by (meson domI domIff map_of_eq_None_iff)
    with Cons.prems(3) a have "renders info"
      by auto
    then have u: "update_gpu_card w info = Inr (redraw w info)"
      by (rule update_gpu_card_redraw)
    let ?cs = "map (\<lambda>(k', w'). (k', if k' = k then redraw w info else w')) cs"
    have up: "AList.update k (redraw w info) cs = ?cs"
      using Cons.prems(2) Some by (rule update_present)
    have keys: "map fst ?cs = map fst cs"
      by (induction cs) auto
    then have keyset: "fst ` set ?cs = fst ` set cs"
      by (metis set_map)
    then have keyset':
      "fst ` (\<lambda>(k', w'). (k', if k' = k then redraw w info else w')) ` set cs = fst ` set cs"
      by simp
    have "update_cards (a # items) (cs, evs) = update_cards items (?cs, evs @ [Update k])"
      using Some a u up by simp
    also have "\<dots> = Inr (map (\<lambda>(k, w). (k, case map_of items k of None \<Rightarrow> w
                                              | Some info \<Rightarrow> redraw w info)) ?cs,
              (evs @ [Update k]) @ map Update (filter (\<lambda>k. k \<in> fst ` set ?cs) (map fst items)))"
    proof -
      have d2: "distinct (map fst ?cs)"
        using Cons.prems(2) by (simp only: keys)
      have "\<forall>(k', i') \<in> set items. k' \<in> fst ` set cs \<longrightarrow> renders i'"
        using Cons.prems(3) by (auto simp: a)
      then have r2: "\<forall>(k', i') \<in> set items. k' \<in> fst ` set ?cs \<longrightarrow> renders i'"
        by (simp only: keyset)
      show ?thesis
        by (rule Cons.IH [OF d d2 r2])
    qed
    also have "map (\<lambda>(k, w). (k, case map_of items k of None \<Rightarrow> w | Some info \<Rightarrow> redraw w info)) ?cs
             = map (\<lambda>(k, w). (k, case map_of (a # items) k of None \<Rightarrow> w
                                  | Some info \<Rightarrow> redraw w info)) cs"
    proof -
      have "w' = w" if "(k, w') \<in> set cs" for w'
        using that Some Cons.prems(2) by simp
      then show ?thesis
        by (auto simp: a none)
    qed
    finally show ?thesis
      using ik by (simp add: a keyset')
  qed
qed

lemma redraw_shows:
  assumes "renders info"
  shows "update_gpu_card (redraw w info) info = Inr (redraw w info)"
  using update_gpu_card_redraw [OF assms] by (rule update_gpu_card_idem)

lemma redraw_row: "row (redraw w info) = row w"
  by (auto simp: redraw_def split: sum.splits dest: update_gpu_card_row)

lemma map_of_redrawn:
  assumes "map_of cs k = Some w"
  shows "map_of (map (\<lambda>(k, w). (k, f k w)) cs) k = Some (f k w)"
  using assms by (induction cs) (auto split: if_splits)

lemma keys_redrawn: "map fst (map (\<lambda>(k, w). (k, f k w)) cs) = map fst cs"
  by (induction cs) auto

lemma in_keys_map_of: "k \<in> fst ` set al \<Longrightarrow> \<exists>v. map_of al k = Some v"
  by (cases "map_of al k") (auto simp: map_of_eq_None_iff)

lemma filter_all_keys: "set xs \<subseteq> A \<Longrightarrow> filter (\<lambda>k. k \<in> A) xs = xs"
  by (induction xs) auto

lemma in_enumerate: "k \<in> set xs \<Longrightarrow> \<exists>i. (i, k) \<in> set (List.enumerate n xs)"
  by (induction xs arbitrary: n) auto

lemma dashboard_update:
  assumes dc: "distinct (map fst cards)" and ds: "distinct (map fst sample)"
    and r: "\<forall>(k, info) \<in> set sample. renders info"
    and eq: "set (map fst cards) = set (map fst sample)"
  shows "build_or_update_dashboard cards sample =
         Inr (map (\<lambda>(k, w). (k, case map_of sample k of None \<Rightarrow> w | Some info \<Rightarrow> redraw w info)) cards,
              map Update (map fst sample))"
proof -
  have "filter (\<lambda>k. k \<in> fst ` set cards) (map fst sample) = map fst sample"
    using eq by (intro filter_all_keys) auto
  moreover have "update_cards sample (cards, []) =
         Inr (map (\<lambda>(k, w). (k, case map_of sample k of None \<Rightarrow> w | Some info \<Rightarrow> redraw w info)) cards,
              [] @ map Update (filter (\<lambda>k. k \<in> fst ` set cards) (map fst sample)))"
    using ds dc r by (intro update_cards_eq) auto
  ultimately show ?thesis
    using eq by (simp add: build_or_update_dashboard_def)
qed

lemma dashboard_rebuild:
  assumes ds: "distinct (map fst sample)"
    and r: "\<forall>(k, info) \<in> set sample. renders info"
    and n: "\<forall>k \<in> set (map fst sample). numeric_id k"
    and ne: "set (map fst cards) \<noteq> set (map fst sample)"
  shows "build_or_update_dashboard cards sample =
         Inr (map (\<lambda>(i, k). (k, redraw (create_gpu_card k (the (map_of sample k)) i)
                                       (the (map_of sample k))))
                (List.enumerate 0 (sort_key id_num (map fst sample))),
              Clear # map (\<lambda>(i, k). Create k i) (List.enumerate 0 (sort_key id_num (map fst sample)))
              @ map Update (map fst sample))"
proof -
  let ?ids = "sort_key id_num (map fst sample)"
  let ?new = "map (\<lambda>(i, k). (k, create_gpu_card k (the (map_of sample k)) i)) (List.enumerate 0 ?ids)"
  let ?evs = "[Clear] @ map (\<lambda>(i, k). Create k i) (List.enumerate 0 ?ids)"
  have s: "sorted_ids sample = Inr ?ids"
    using n by (rule sorted_ids_numeric)
  have c: "create_cards ?ids sample 0 ([], [Clear]) = Inr ([] @ ?new, ?evs)"
    using ds by (intro create_cards_eq) auto
  have keys: "map fst ?new = ?ids"
    by (induction ?ids arbitrary: rule: rev_induct) (simp_all add: enumerate_eq_zip o_def split_def)
  have dn: "distinct (map fst ?new)"
    using ds by (simp only: keys distinct_sort)
  have "fst ` set ?new = set (map fst ?new)"
    by (simp only: set_map)
  also have "\<dots> = set ?ids"
    by (simp only: keys)
  also have "\<dots> = fst ` set sample"
    by simp
  finally have kn: "fst ` set ?new = fst ` set sample" .
  have "update_cards sample (?new, ?evs) =
        Inr (map (\<lambda>(k, w). (k, case map_of sample k of None \<Rightarrow> w | Some info \<Rightarrow> redraw w info)) ?new,
             ?evs @ map Update (filter (\<lambda>k. k \<in> fst ` set ?new) (map fst sample)))"
    using ds dn r by (intro update_cards_eq) auto
  moreover have "filter (\<lambda>k. k \<in> fst ` set ?new) (map fst sample) = map fst sample"
    unfolding kn by (intro filter_all_keys) auto
  moreover have "map (\<lambda>(k, w). (k, case map_of sample k of None \<Rightarrow> w | Some info \<Rightarrow> redraw w info)) ?new
      = map (\<lambda>(i, k). (k, redraw (create_gpu_card k (the (map_of sample k)) i)
                                       (the (map_of sample k))))
                (List.enumerate 0 ?ids)"
  proof -
    have "\<exists>info. map_of sample k = Some info" if "(i, k) \<in> set (List.enumerate 0 ?ids)" for i k
    proof -
      from that have "k \<in> set ?ids"
        by (auto simp: enumerate_eq_zip dest: set_zip_rightD)
      then show ?thesis
        by (intro in_keys_map_of) auto
    qed
    then have "(case map_of sample k of None \<Rightarrow> w | Some info \<Rightarrow> redraw w info)
               = redraw w (the (map_of sample k))"
      if "(i, k) \<in> set (List.enumerate 0 ?ids)" for i k w
      using that by fastforce
    then show ?thesis
      by (auto simp: o_def)
  qed
  ultimately have "update_cards sample (?new, ?evs) =
        Inr (map (\<lambda>(i, k). (k, redraw (create_gpu_card k (the (map_of sample k)) i)
                                       (the (map_of sample k))))
                (List.enumerate 0 ?ids),
             ?evs @ map Update (map fst sample))"
    by (simp only:)
  then show ?thesis
    using ne s c by (simp add: build_or_update_dashboard_def)
qed

section \<open>Facts about the refresh cycle\<close>

lemma update_cards_Inr_renders:
  assumes "update_cards items (cs, evs) = Inr d" and "distinct (map fst cs)"
  shows "\<forall>(k, info) \<in> set items. k \<in> fst ` set cs \<longrightarrow> renders info"
  using assms
proof (induction items arbitrary: cs evs)
  case Nil
  then show ?case by simp
next
  case (Cons a items)
  obtain k info where a: "a = (k, info)"
    by (cases a)
  show ?case
  proof (cases "map_of cs k")
    case None
    then have nk: "k \<notin> fst ` set cs"
      by (simp add: map_of_eq_None_iff)
    from Cons.prems(1) None a have "update_cards items (cs, evs) = Inr d"
      by simp
    then have "\<forall>(k, info) \<in> set items. k \<in> fst ` set cs \<longrightarrow> renders info"
      using Cons.prems(2) by (rule Cons.IH)
    with nk show ?thesis
      by (auto simp: a)
  next
    case (Some w)
    from Cons.prems(1) Some a obtain w' where
      u: "update_gpu_card w info = Inr w'"
      and rest: "update_cards items (AList.update k w' cs, evs @ [Update k]) = Inr d"
      by (auto simp: ebind_eq_Inr)
    have ren: "renders info"
      using u update_gpu_card_renders by blast
    have keys: "fst ` set (AList.update k w' cs) = fst ` set cs"
      using Some by (auto simp: dom_update dest: map_of_SomeD intro: rev_image_eqI)
    have "distinct (map fst (AList.update k w' cs))"
      using Cons.prems(2) by (rule distinct_update)
    with rest have "\<forall>(k', i') \<in> set items. k' \<in> fst ` set (AList.update k w' cs) \<longrightarrow> renders i'"
      by (rule Cons.IH)
    with ren show ?thesis
      by (auto simp: a keys)
  qed
qed

lemma rebuilt_shows:
  assumes ds: "distinct (map fst sample)" and r: "\<forall>(k, info) \<in> set sample. renders info"
    and m: "map_of sample k = Some info"
  shows "\<exists>w. map_of (map (\<lambda>(i, k). (k, redraw (create_gpu_card k (the (map_of sample k)) i)
                                            (the (map_of sample k))))
                      (List.enumerate 0 (sort_key id_num (map fst sample)))) k = Some w \<and>
             update_gpu_card w info = Inr w"
proof -
  let ?ids = "sort_key id_num (map fst sample)"
  let ?g = "\<lambda>i k. redraw (create_gpu_card k (the (map_of sample k)) i) (the (map_of sample k))"
  let ?cs = "map (\<lambda>(i, k). (k, ?g i k)) (List.enumerate 0 ?ids)"
  have "map fst ?cs = map snd (List.enumerate 0 ?ids)"
    by (simp add: split_def o_def)
  then have keys: "map fst ?cs = ?ids"
    by simp
  from m have ms: "(k, info) \<in> set sample"
    by (rule map_of_SomeD)
  with r have ren: "renders info"
    by auto
  from ms have "k \<in> set ?ids"
    by force
  then obtain i where "(i, k) \<in> set (List.enumerate 0 ?ids)"
    using in_enumerate by fastforce
  then have "(k, ?g i k) \<in> set ?cs"
    by force
  moreover have "distinct (map fst ?cs)"
    using ds by (simp only: keys distinct_sort)
  ultimately have "map_of ?cs k = Some (?g i k)"
    by (simp only: map_of_eq_Some_iff)
  moreover have "update_gpu_card (?g i k) info = Inr (?g i k)"
    using m ren by (simp add: redraw_shows)
  ultimately show ?thesis
    by blast
qed

lemma dashboard_in_sync:
  assumes b: "build_or_update_dashboard cards sample = Inr (cs, evs)"
    and dc: "distinct (map fst cards)" and ds: "distinct (map fst sample)"
  shows "distinct (map fst cs) \<and> set (map fst cs) = set (map fst sample) \<and>
         (\<forall>(k, w) \<in> set cs. case map_of sample k of None \<Rightarrow> False
                               | Some info \<Rightarrow> update_gpu_card w info = Inr w)"
proof (cases "set (map fst cards) = set (map fst sample)")
  case True
  with b have u: "update_cards sample (cards, []) = Inr (cs, evs)"
    by (simp add: build_or_update_dashboard_def)
  then have "\<forall>(k, info) \<in> set sample. k \<in> fst ` set cards \<longrightarrow> renders info"
    using dc by (rule update_cards_Inr_renders)
  with True have r: "\<forall>(k, info) \<in> set sample. renders info"
    by force
  let ?f = "\<lambda>k w. case map_of sample k of None \<Rightarrow> w | Some info \<Rightarrow> redraw w info"
  have "build_or_update_dashboard cards sample =
        Inr (map (\<lambda>(k, w). (k, ?f k w)) cards, map Update (map fst sample))"
    using dc ds r True by (rule dashboard_update)
  with b have cs: "cs = map (\<lambda>(k, w). (k, ?f k w)) cards"
    by simp
  have keys: "map fst cs = map fst cards"
    unfolding cs by (rule keys_redrawn)
  have each: "case map_of sample k of None \<Rightarrow> False | Some info \<Rightarrow> update_gpu_card w info = Inr w"
    if "(k, w) \<in> set cs" for k w
  proof -
    from that obtain w0 where w0: "(k, w0) \<in> set cards" and w: "w = ?f k w0"
      by (auto simp: cs)
    from w0 have "k \<in> fst ` set cards"
      by force
    with True have "k \<in> fst ` set sample"
      by simp
    then obtain info where info: "map_of sample k = Some info"
      using in_keys_map_of by fastforce
    then have "(k, info) \<in> set sample"
      by (rule map_of_SomeD)
    with r have "renders info"
      by auto
    then show ?thesis
      using info w by (simp add: redraw_shows)
  qed
  show ?thesis
    using dc True each by (auto simp only: keys)
next
  case False
  with b obtain ids d where s: "sorted_ids sample = Inr ids"
    and c: "create_cards ids sample 0 ([], [Clear]) = Inr d"
    and u: "update_cards sample d = Inr (cs, evs)"
    by (auto simp: build_or_update_dashboard_def ebind_eq_Inr)
  have n: "\<forall>k \<in> set (map fst sample). numeric_id k"
    using s sorted_ids_not_numeric [of sample] by auto
  then have ids: "ids = sort_key id_num (map fst sample)"
    using s by (simp add: sorted_ids_numeric)
  let ?new = "map (\<lambda>(i, k). (k, create_gpu_card k (the (map_of sample k)) i)) (List.enumerate 0 ids)"
  have "create_cards ids sample 0 ([], [Clear]) =
        Inr ([] @ ?new, [Clear] @ map (\<lambda>(i, k). Create k i) (List.enumerate 0 ids))"
    using ds by (intro create_cards_eq) (auto simp: ids)
  with c have d: "d = (?new, [Clear] @ map (\<lambda>(i, k). Create k i) (List.enumerate 0 ids))"
    by simp
  have kn: "map fst ?new = ids"
  proof -
    have "map fst ?new = map snd (List.enumerate 0 ids)"
      by (simp add: split_def o_def)
    then show ?thesis by simp
  qed
  have di: "distinct ids" and si: "set ids = fst ` set sample"
    using ds by (simp_all add: ids)
  have dn: "distinct (map fst ?new)"
    using di by (simp only: kn)
  have "\<forall>(k, info) \<in> set sample. k \<in> fst ` set ?new \<longrightarrow> renders info"
    using u [unfolded d] dn by (rule update_cards_Inr_renders)
  moreover have "fst ` set ?new = set (map fst ?new)"
    by (simp only: set_map)
  then have "fst ` set ?new = fst ` set sample"
    by (simp only: kn si)
  ultimately have r: "\<forall>(k, info) \<in> set sample. renders info"
    by force
  let ?cs = "map (\<lambda>(i, k). (k, redraw (create_gpu_card k (the (map_of sample k)) i)
                                       (the (map_of sample k))))
                (List.enumerate 0 (sort_key id_num (map fst sample)))"
  have "build_or_update_dashboard cards sample =
        Inr (?cs, Clear # map (\<lambda>(i, k). Create k i) (List.enumerate 0 (sort_key id_num (map fst sample)))
                  @ map Update (map fst sample))"
    using ds r n False by (rule dashboard_rebuild)
  with b have cs: "cs = ?cs"
    by simp
  have "map fst ?cs = map snd (List.enumerate 0 (sort_key id_num (map fst sample)))"
    by (simp add: split_def o_def)
  then have keys: "map fst cs = sort_key id_num (map fst sample)"
    by (simp add: cs)
  have each: "\<exists>w. map_of cs k = Some w \<and> update_gpu_card w info = Inr w"
    if "map_of sample k = Some info" for k info
    unfolding cs using ds r that by (rule rebuilt_shows)
  have dcs: "distinct (map fst cs)"
    using ds by (simp only: keys distinct_sort)
  have "case map_of sample k of None \<Rightarrow> False | Some info \<Rightarrow> update_gpu_card w info = Inr w"
    if "(k, w) \<in> set cs" for k w
  proof -
    from that have "k \<in> set (map fst cs)"
      by force
    then have "k \<in> set (sort_key id_num (map fst sample))"
      by (simp only: keys)
    then have "k \<in> fst ` set sample"
      by simp
    then obtain info where info: "map_of sample k = Some info"
      using in_keys_map_of by fastforce
    with each [of k info] obtain w' where "map_of cs k = Some w'" "update_gpu_card w' info = Inr w'"
      by blast
    moreover have "map_of cs k = Some w"
      using that dcs by simp
    ultimately show ?thesis
      using info by simp
  qed
  then show ?thesis
    using dcs by (auto simp: keys)
qed


lemma in_sync_init: "in_sync init_state"
  by (simp add: in_sync_def init_state_def)

lemma check_nvidia_smi_state:
  "check_nvidia_smi r st = (st', ok) \<Longrightarrow>
   ok = (\<not> failed r) \<and> gpu_data st' = gpu_data st \<and> gpu_cards st' = gpu_cards st \<and>
   dialogs st' = dialogs st"
  by (auto simp: check_nvidia_smi_def failed_def split: proc_result.splits if_splits)


lemma refresh_in_sync:
  assumes s: "in_sync st" and r: "refresh_gpu_data env st = Inr st'"
  shows "in_sync st'"
proof -
  obtain st1 ok where c: "check_nvidia_smi (version_run env) st = (st1, ok)"
    by (cases "check_nvidia_smi (version_run env) st")
  note c1 = check_nvidia_smi_state [OF c]
  show ?thesis
  proof (cases ok)
    case False
    with r c have "st' = st1\<lparr>dialogs := dialogs st1 @ [(''Error'', ''nvidia-smi is not available'')]\<rparr>"
      by (simp add: refresh_gpu_data_def)
    with s c1 show ?thesis
      by (simp add: in_sync_def)
  next
    case True
    with r c obtain st2 cs evs where
      q: "(case get_gpu_data (query_run env) of
             None \<Rightarrow> Inr st1
           | Some basic_data \<Rightarrow>
               if basic_data \<noteq> [] then
                 ebind (parse_gpu_data basic_data) (\<lambda>g. Inr (st1\<lparr>gpu_data := g\<rparr>))
               else Inr st1) = Inr st2"
      and b: "build_or_update_dashboard (gpu_cards st2) (gpu_data st2) = Inr (cs, evs)"
      and e: "st' = st2\<lparr>gpu_cards := cs, status_label := ''Last updated: '' @ clock env\<rparr>"
      by (auto simp: refresh_gpu_data_def ebind_eq_Inr)
    have c2: "gpu_cards st2 = gpu_cards st"
      using q c1 by (auto simp: ebind_eq_Inr split: option.splits if_splits)
    have d2: "distinct (map fst (gpu_data st2))"
      using q c1 s
      by (auto simp: ebind_eq_Inr in_sync_def split: option.splits if_splits
          dest: parse_gpu_data_distinct)
    have dc: "distinct (map fst (gpu_cards st2))"
      using s c2 by (simp add: in_sync_def)
    from dashboard_in_sync [OF b dc d2] d2 show ?thesis
      by (simp add: in_sync_def e)
  qed
qed


subsection \<open>Reading back a printed integer\<close>

text \<open>
  \<^verbatim>\<open>int(float(str(n)))\<close> is \<open>n\<close> for every integer of magnitude below \<open>2 ^ 53\<close>: the
  digits are read back exactly and the double holds the number without rounding.
\<close>

lemma digit_val_show_digit: "0 \<le> d \<Longrightarrow> d < 10 \<Longrightarrow> digit_val (show_digit d) = Some d"
  by (drule (1) digit_cases) (auto simp: digit_val_def show_digit_def)

lemma take_digits_show_nat:
  "0 \<le> n \<Longrightarrow>
   take_digits acc cnt (show_nat n @ rest) =
   take_digits (acc * 10 ^ length (show_nat n) + n) (cnt + length (show_nat n)) rest"
proof (induction n arbitrary: acc cnt rest rule: show_nat.induct)
  case (1 n)
  show ?case
  proof (cases "n < 10")
    case True
    with "1.prems" show ?thesis
      by (simp add: show_nat_small digit_val_show_digit)
  next
    case False
    let ?h = "show_nat (n div 10)" and ?d = "show_digit (n mod 10)"
    have n: "0 \<le> n div 10"
      using "1.prems" by simp
    have "take_digits acc cnt (show_nat n @ rest) = take_digits acc cnt (?h @ (?d # rest))"
      using False by (simp add: show_nat_large)
    also have "\<dots> = take_digits (acc * 10 ^ length ?h + n div 10) (cnt + length ?h) (?d # rest)"
      using False n by (rule "1.IH")
    also have "\<dots> = take_digits ((acc * 10 ^ length ?h + n div 10) * 10 + n mod 10)
                          (Suc (cnt + length ?h)) rest"
      by (simp add: digit_val_show_digit)
    also have "(acc * 10 ^ length ?h + n div 10) * 10 + n mod 10
               = acc * 10 ^ length (show_nat n) + n"
      using False by (simp add: show_nat_large algebra_simps)
    also have "Suc (cnt + length ?h) = cnt + length (show_nat n)"
      using False by (simp add: show_nat_large)
    finally show ?thesis .
  qed
qed

lemma take_digits_show_nat_all:
  "0 \<le> n \<Longrightarrow> take_digits 0 0 (show_nat n) = (n, length (show_nat n), [])"
  using take_digits_show_nat [of n 0 0 "[]"] by simp

lemma show_nat_digits: "0 \<le> n \<Longrightarrow> c \<in> set (show_nat n) \<Longrightarrow> is_digit c"
proof (induction n rule: show_nat.induct)
  case (1 n)
  show ?case
  proof (cases "n < 10")
    case True
    with "1.prems" show ?thesis
      by (simp add: show_nat_small is_digit_def digit_val_show_digit)
  next
    case False
    with "1.prems" have "c \<in> set (show_nat (n div 10)) \<or> c = show_digit (n mod 10)"
      by (auto simp: show_nat_large)
    then show ?thesis
    proof
      assume "c \<in> set (show_nat (n div 10))"
      with False "1.prems"(1) show ?thesis
        by (intro "1.IH") simp_all
    next
      assume "c = show_digit (n mod 10)"
      then show ?thesis
        by (simp add: is_digit_def digit_val_show_digit)
    qed
  qed
qed

lemma is_digit_range: "is_digit c \<longleftrightarrow> 48 \<le> (of_char c :: int) \<and> (of_char c :: int) \<le> 57"
  by (simp add: is_digit_def digit_val_def Let_def)

lemma digit_not_num_space: "is_digit c \<Longrightarrow> \<not> is_num_space c"
proof -
  assume "is_digit c"
  then have "48 \<le> (of_char c :: int)" "(of_char c :: int) \<le> 57"
    by (simp_all add: is_digit_range)
  then have "48 \<le> (of_char c :: nat)" "(of_char c :: nat) \<le> 57"
    by (metis of_char_of of_nat_numeral of_nat_le_iff of_nat_of_char)+
  then show ?thesis
    by (simp add: is_num_space_def Let_def)
qed


lemma digit_not_underscore: "is_digit c \<Longrightarrow> c \<noteq> CHR ''_''"
  by (auto simp: is_digit_range)

lemma drop_underscores_none: "CHR ''_'' \<notin> set s \<Longrightarrow> drop_underscores p s = Some s"
  by (induction s arbitrary: p) auto

lemma num_strip_id:
  "s \<noteq> [] \<Longrightarrow> \<not> is_num_space (hd s) \<Longrightarrow> \<not> is_num_space (last s) \<Longrightarrow> num_strip s = s"
proof -
  assume s: "s \<noteq> []" and h: "\<not> is_num_space (hd s)" and l: "\<not> is_num_space (last s)"
  from s h have "dropWhile is_num_space s = s"
    by (cases s) simp_all
  moreover from s l have "dropWhile is_num_space (rev s) = rev s"
    by (cases "rev s") (simp_all add: last_rev [symmetric] del: last_rev)
  ultimately show ?thesis
    by (simp add: num_strip_def)
qed

lemma show_nat_hd_digit: "0 \<le> n \<Longrightarrow> is_digit (hd (show_nat n))"
  using show_nat_digits [of n "hd (show_nat n)"] show_nat_not_Nil [of n] by simp

lemma show_nat_last_digit: "0 \<le> n \<Longrightarrow> is_digit (last (show_nat n))"
  using show_nat_digits [of n "last (show_nat n)"] show_nat_not_Nil [of n] by simp

lemma is_digit_nat: "is_digit c \<Longrightarrow> 48 \<le> (of_char c :: nat) \<and> (of_char c :: nat) \<le> 57"
proof -
  assume "is_digit c"
  then have "48 \<le> (of_char c :: int)" "(of_char c :: int) \<le> 57"
    by (simp_all add: is_digit_range)
  then show ?thesis
    by (metis of_char_of of_nat_numeral of_nat_le_iff of_nat_of_char)
qed

lemma digit_not_word:
  "is_digit c \<Longrightarrow> 97 \<le> (of_char l :: nat) \<Longrightarrow> \<not> ci_eq (c # cs) (l # w)"
  by (drule is_digit_nat) (auto simp: ci_eq_def)

lemma show_nat_not_word:
  assumes "0 \<le> n" "97 \<le> (of_char l :: nat)"
  shows "\<not> ci_eq (show_nat n) (l # w)"
proof -
  obtain c cs where s: "show_nat n = c # cs"
    using show_nat_not_Nil [of n] by (cases "show_nat n") auto
  with show_nat_hd_digit [OF assms(1)] have "is_digit c"
    by simp
  then show ?thesis
    unfolding s using assms(2) by (rule digit_not_word)
qed

lemma parse_decimal_show_nat: "0 \<le> n \<Longrightarrow> parse_decimal (show_nat n) = Some (n, 0)"
  by (simp add: parse_decimal_def take_digits_show_nat_all)

lemma take_sign_show_nat: "0 \<le> n \<Longrightarrow> take_sign (show_nat n) = (False, show_nat n)"
proof -
  assume n: "0 \<le> n"
  obtain c cs where s: "show_nat n = c # cs"
    using show_nat_not_Nil [of n] by (cases "show_nat n") auto
  with show_nat_hd_digit [OF n] have "is_digit c"
    by simp
  then have "c \<noteq> CHR ''-''" "c \<noteq> CHR ''+''"
    by (auto simp: is_digit_range)
  then show ?thesis
    by (simp add: s)
qed

lemma take_sign_strip_show_int:
  "take_sign (num_strip (show_int n)) = (n < 0, show_nat \<bar>n\<bar>)"
proof (cases "n < 0")
  case True
  let ?s = "CHR ''-'' # show_nat (- n)"
  have "\<not> is_num_space (last ?s)"
    using True show_nat_last_digit [of "- n"] by (simp add: digit_not_num_space)
  moreover have "\<not> is_num_space (hd ?s)"
    by (simp add: is_num_space_def)
  ultimately have "num_strip ?s = ?s"
    by (intro num_strip_id) simp_all
  with True show ?thesis
    by (simp add: show_int_def)
next
  case False
  then have n: "0 \<le> n"
    by simp
  have "num_strip (show_nat n) = show_nat n"
    using n
    by (intro num_strip_id) (simp_all add: digit_not_num_space show_nat_hd_digit show_nat_last_digit)
  with False n show ?thesis
    by (simp add: show_int_def take_sign_show_nat)
qed

lemma drop_underscores_show_int: "drop_underscores p (show_int n) = Some (show_int n)"
proof -
  have "CHR ''_'' \<notin> set (show_nat m)" if "0 \<le> m" for m
    using show_nat_digits [OF that] digit_not_underscore by blast
  then have "CHR ''_'' \<notin> set (show_int n)"
    by (simp add: show_int_def)
  then show ?thesis
    by (rule drop_underscores_none)
qed

lemma py_float_show_int: "py_float (show_int n) = Inr (round_ratio (n < 0) \<bar>n\<bar> 1)"
proof -
  have w: "\<not> ci_eq (show_nat \<bar>n\<bar>) ''inf''" "\<not> ci_eq (show_nat \<bar>n\<bar>) ''infinity''"
          "\<not> ci_eq (show_nat \<bar>n\<bar>) ''nan''"
    by (rule show_nat_not_word, simp, simp)+
  show ?thesis
    by (simp add: py_float_def drop_underscores_show_int take_sign_strip_show_int w
        parse_decimal_show_nat)
qed

lemma round_ratio_exact:
  assumes "0 \<le> m" "m < 2 ^ 53"
  shows "py_int_of_float (round_ratio s m 1) = Inr (if s then - m else m)"
proof (cases "m = 0")
  case True
  then show ?thesis
    by (simp add: round_ratio_def)
next
  case False
  with assms have p: "0 < m"
    by simp
  have u: "ulp_exp m 1 \<le> 0"
    using p _ _ assms(2) by (rule ulp_exp_le) simp_all
  have h: "round_half_even k 1 = k" for k
    by (simp add: round_half_even_def)
  show ?thesis
  proof (cases "ulp_exp m 1 = 0")
    case True
    then show ?thesis
      using False by (simp add: round_ratio_def mantissa_def h)
  next
    case False
    with u have "ulp_exp m 1 < 0"
      by simp
    then show ?thesis
      using \<open>m \<noteq> 0\<close> by (simp add: round_ratio_def mantissa_def h)
  qed
qed

lemma to_int_show_int: "\<bar>n\<bar> < 2 ^ 53 \<Longrightarrow> to_int (show_int n) = Some n"
  by (simp add: to_int_def py_float_show_int round_ratio_exact)


section \<open>Claims about the parser\<close>

text \<open>
  C3. \<^verbatim>\<open>parse_gpu_data\<close> returns a sample for every text and never raises: the empty
  sample for the empty text and for a text none of whose lines has seven fields. The
  sample is what the lines of the text leave, one after the other, starting from the
  empty sample. A line is split at the commas; with fewer than seven fields it leaves
  the sample as it is, with seven or more it stores one record under the first
  field, made of the fields two to seven only. So every line of seven or more fields
  has its id in the sample, and every record of the sample is made of the first
  seven fields of such a line.
\<close>

theorem parse_gpu_data_total:
  "(\<exists>s. parse_gpu_data data = Inr s \<and>
        s = fold add_record (lines_of data) [] \<and>
        (\<forall>l \<in> set (lines_of data).
           7 \<le> length (split_on CHR '','' l) \<longrightarrow>
             map strip (split_on CHR '','' l) ! 0 \<in> fst ` set s) \<and>
        (\<forall>k r. map_of s k = Some r \<longrightarrow>
           (\<exists>l \<in> set (lines_of data).
              7 \<le> length (split_on CHR '','' l) \<and>
              (let parts = map strip (split_on CHR '','' l)
               in k = parts ! 0 \<and>
                  r = \<lparr>name = parts ! 1,
                       temperature = to_int (parts ! 2),
                       utilization = to_int (parts ! 3),
                       memory_used = to_int (parts ! 4),
                       memory_total = to_int (parts ! 5),
                       power_draw = to_float (parts ! 6)\<rparr>)))) \<and>
   parse_gpu_data [] = Inr [] \<and>
   ((\<forall>l \<in> set (lines_of data). length (split_on CHR '','' l) < 7) \<longrightarrow>
      parse_gpu_data data = Inr []) \<and>
   parse_line line g = Inr (add_record line g) \<and>
   (length (split_on CHR '','' line) < 7 \<longrightarrow> parse_line line g = Inr g) \<and>
   (7 \<le> length (split_on CHR '','' line) \<longrightarrow>
      (let parts = map strip (split_on CHR '','' line)
       in parse_line line g =
          Inr (AList.update (parts ! 0)
                 \<lparr>name = parts ! 1,
                  temperature = to_int (parts ! 2),
                  utilization = to_int (parts ! 3),
                  memory_used = to_int (parts ! 4),
                  memory_total = to_int (parts ! 5),
                  power_draw = to_float (parts ! 6)\<rparr> g)))"
proof (intro conjI impI)
  let ?s = "fold add_record (lines_of data) []"
  let ?rs = "rev (List.map_filter line_record (lines_of data))"
  have m: "map_of ?s = map_of ?rs"
    by (simp add: map_of_fold_add_record)
  have keys: "map strip (split_on CHR '','' l) ! 0 \<in> fst ` set ?s"
    if l: "l \<in> set (lines_of data)" and n: "7 \<le> length (split_on CHR '','' l)" for l
  proof -
    from n obtain r where "line_record l = Some (map strip (split_on CHR '','' l) ! 0, r)"
      by (simp add: line_record_def Let_def)
    with l have "(map strip (split_on CHR '','' l) ! 0, r) \<in> set ?rs"
      by (auto simp: set_map_filter)
    then have "map strip (split_on CHR '','' l) ! 0 \<in> fst ` set ?rs"
      by (rule rev_image_eqI) simp
    then have "map strip (split_on CHR '','' l) ! 0 \<in> dom (map_of ?rs)"
      by (simp only: dom_map_of_conv_image_fst)
    then have "map strip (split_on CHR '','' l) ! 0 \<in> dom (map_of ?s)"
      by (simp only: m)
    then show ?thesis
      by (simp only: dom_map_of_conv_image_fst)
  qed
  have origin: "\<exists>l \<in> set (lines_of data).
              7 \<le> length (split_on CHR '','' l) \<and>
              (let parts = map strip (split_on CHR '','' l)
               in k = parts ! 0 \<and>
                  r = \<lparr>name = parts ! 1,
                       temperature = to_int (parts ! 2),
                       utilization = to_int (parts ! 3),
                       memory_used = to_int (parts ! 4),
                       memory_total = to_int (parts ! 5),
                       power_draw = to_float (parts ! 6)\<rparr>)"
    if "map_of ?s k = Some r" for k r
  proof -
    from that have "map_of ?rs k = Some r"
      by (simp only: m)
    then have "(k, r) \<in> set ?rs"
      by (rule map_of_SomeD)
    then obtain l where l: "l \<in> set (lines_of data)" and lr: "line_record l = Some (k, r)"
      by (auto simp: set_map_filter)
    from lr have "7 \<le> length (split_on CHR '','' l)"
      by (simp add: line_record_def Let_def split: if_splits)
    with l lr show ?thesis
      by (intro bexI [of _ l]) (auto simp: line_record_def Let_def)
  qed
  show "\<exists>s. parse_gpu_data data = Inr s \<and>
        s = fold add_record (lines_of data) [] \<and>
        (\<forall>l \<in> set (lines_of data).
           7 \<le> length (split_on CHR '','' l) \<longrightarrow>
             map strip (split_on CHR '','' l) ! 0 \<in> fst ` set s) \<and>
        (\<forall>k r. map_of s k = Some r \<longrightarrow>
           (\<exists>l \<in> set (lines_of data).
              7 \<le> length (split_on CHR '','' l) \<and>
              (let parts = map strip (split_on CHR '','' l)
               in k = parts ! 0 \<and>
                  r = \<lparr>name = parts ! 1,
                       temperature = to_int (parts ! 2),
                       utilization = to_int (parts ! 3),
                       memory_used = to_int (parts ! 4),
                       memory_total = to_int (parts ! 5),
                       power_draw = to_float (parts ! 6)\<rparr>)))"
  proof (intro exI [of _ ?s] conjI ballI allI impI)
    show "parse_gpu_data data = Inr ?s"
      by (rule parse_gpu_data_eq)
    show "?s = fold add_record (lines_of data) []"
      by (rule refl)
    show "map strip (split_on CHR '','' l) ! 0 \<in> fst ` set ?s"
      if "l \<in> set (lines_of data)" "7 \<le> length (split_on CHR '','' l)" for l
      using that by (rule keys)
    show "\<exists>l \<in> set (lines_of data).
              7 \<le> length (split_on CHR '','' l) \<and>
              (let parts = map strip (split_on CHR '','' l)
               in k = parts ! 0 \<and>
                  r = \<lparr>name = parts ! 1,
                       temperature = to_int (parts ! 2),
                       utilization = to_int (parts ! 3),
                       memory_used = to_int (parts ! 4),
                       memory_total = to_int (parts ! 5),
                       power_draw = to_float (parts ! 6)\<rparr>)"
      if "map_of ?s k = Some r" for k r
      using that by (rule origin)
  qed
  show "parse_gpu_data [] = Inr []"
    by (simp add: parse_gpu_data_def)
  show "parse_gpu_data data = Inr []"
    if "\<forall>l \<in> set (lines_of data). length (split_on CHR '','' l) < 7"
  proof -
    from that have "\<forall>l \<in> set (lines_of data). line_record l = None"
      by (auto simp: line_record_def)
    then show ?thesis
      by (simp add: parse_gpu_data_eq fold_add_record_dropped)
  qed
  show "parse_line line g = Inr (add_record line g)"
    by (rule parse_line_eq)
  show "parse_line line g = Inr g" if "length (split_on CHR '','' line) < 7"
    using that by (simp add: parse_line_eq add_record_def line_record_def)
  show "let parts = map strip (split_on CHR '','' line)
        in parse_line line g =
           Inr (AList.update (parts ! 0)
                  \<lparr>name = parts ! 1,
                   temperature = to_int (parts ! 2),
                   utilization = to_int (parts ! 3),
                   memory_used = to_int (parts ! 4),
                   memory_total = to_int (parts ! 5),
                   power_draw = to_float (parts ! 6)\<rparr> g)"
    if "7 \<le> length (split_on CHR '','' line)"
    using that by (simp add: parse_line_eq add_record_def line_record_def Let_def)
qed

theorem parse_gpu_data_total_witness:
  "parse_gpu_data ''no data, at all'' = Inr [] \<and>
   parse_gpu_data (''7, short'' @ [CHR 0x0A] @ ''3, Z, 40, 5, 6, 7, 8.5, more'' @ [CHR 0x0A]
                   @ ''1, Y, x, 9'' @ [CHR 0x0A] @ ''0, X, 50, 1, 2, 4, n/a'') =
     Inr [(''3'', \<lparr>name = ''Z'', temperature = Some 40, utilization = Some 5,
                   memory_used = Some 6, memory_total = Some 7,
                   power_draw = Some (Fin False 4785074604081152 (- 49))\<rparr>),
          (''0'', \<lparr>name = ''X'', temperature = Some 50, utilization = Some 1,
                   memory_used = Some 2, memory_total = Some 4, power_draw = None\<rparr>)] \<and>
   (\<exists>s. parse_gpu_data (''7, short'' @ [CHR 0x0A] @ ''3, Z, 40, 5, 6, 7, 8.5, more'' @ [CHR 0x0A]
                        @ ''1, Y, x, 9'' @ [CHR 0x0A] @ ''0, X, 50, 1, 2, 4, n/a'') = Inr s \<and>
        ''3'' \<in> fst ` set s \<and> ''0'' \<in> fst ` set s \<and> map_of s ''7'' = None) \<and>
   length (split_on CHR '','' ''7, short'') < 7 \<and>
   parse_line ''7, short'' [] = Inr [] \<and>
   7 \<le> length (split_on CHR '','' ''3, Z, 40, 5, 6, 7, 8.5, more'') \<and>
   parse_line ''3, Z, 40, 5, 6, 7, 8.5, more'' [] =
     Inr [(''3'', \<lparr>name = ''Z'', temperature = Some 40, utilization = Some 5,
                   memory_used = Some 6, memory_total = Some 7,
                   power_draw = Some (Fin False 4785074604081152 (- 49))\<rparr>)]"
proof -
  let ?d = "''7, short'' @ [CHR 0x0A] @ ''3, Z, 40, 5, 6, 7, 8.5, more'' @ [CHR 0x0A]
            @ ''1, Y, x, 9'' @ [CHR 0x0A] @ ''0, X, 50, 1, 2, 4, n/a''"
  let ?l3 = "''3, Z, 40, 5, 6, 7, 8.5, more''" and ?l0 = "''0, X, 50, 1, 2, 4, n/a''"
  let ?r = "[(''3'', \<lparr>name = ''Z'', temperature = Some 40, utilization = Some 5,
                   memory_used = Some 6, memory_total = Some 7,
                   power_draw = Some (Fin False 4785074604081152 (- 49))\<rparr>),
             (''0'', \<lparr>name = ''X'', temperature = Some 50, utilization = Some 1,
                   memory_used = Some 2, memory_total = Some 4, power_draw = None\<rparr>)]"
  have h1: "\<forall>l \<in> set (lines_of ''no data, at all''). length (split_on CHR '','' l) < 7"
    by code_simp
  have h2: "length (split_on CHR '','' ''7, short'') < 7"
    by code_simp
  have h3: "7 \<le> length (split_on CHR '','' ?l3)"
    by code_simp
  have h0: "7 \<le> length (split_on CHR '','' ?l0)"
    by code_simp
  have ls: "lines_of ?d = [''7, short'', ?l3, ''1, Y, x, 9'', ?l0]"
    by code_simp
  have k3: "map strip (split_on CHR '','' ?l3) ! 0 = ''3''"
    and k0: "map strip (split_on CHR '','' ?l0) ! 0 = ''0''"
    by code_simp+
  have n1: "\<not> 7 \<le> length (split_on CHR '','' ''1, Y, x, 9'')"
    by code_simp
  have pd: "parse_gpu_data ?d = Inr ?r"
    by code_simp
  note t = parse_gpu_data_total [of "''no data, at all''" "''7, short''" "[]"]
  note u = parse_gpu_data_total [of ?d ?l3 "[]"]
  have c1: "parse_gpu_data ''no data, at all'' = Inr []"
    by (rule t [THEN conjunct2, THEN conjunct2, THEN conjunct1, THEN mp, OF h1])
  from u [THEN conjunct1] obtain s where
    p: "parse_gpu_data ?d = Inr s" and e: "s = fold add_record (lines_of ?d) []"
    and m: "\<And>l. l \<in> set (lines_of ?d) \<Longrightarrow> 7 \<le> length (split_on CHR '','' l) \<Longrightarrow>
              map strip (split_on CHR '','' l) ! 0 \<in> fst ` set s"
    and o: "\<And>k r. map_of s k = Some r \<Longrightarrow>
              \<exists>l \<in> set (lines_of ?d). 7 \<le> length (split_on CHR '','' l) \<and>
                (let parts = map strip (split_on CHR '','' l)
                 in k = parts ! 0 \<and>
                    r = \<lparr>name = parts ! 1,
                         temperature = to_int (parts ! 2),
                         utilization = to_int (parts ! 3),
                         memory_used = to_int (parts ! 4),
                         memory_total = to_int (parts ! 5),
                         power_draw = to_float (parts ! 6)\<rparr>)"
    by blast
  have c5: "parse_gpu_data ?d = Inr ?r"
    by (rule pd)
  have i3: "?l3 \<in> set (lines_of ?d)" and i0: "?l0 \<in> set (lines_of ?d)"
    unfolding ls by simp_all
  have m3: "''3'' \<in> fst ` set s"
    using m [OF i3 h3] unfolding k3 .
  have m0: "''0'' \<in> fst ` set s"
    using m [OF i0 h0] unfolding k0 .
  have m7: "map_of s ''7'' = None"
  proof (cases "map_of s ''7''")
    case None
    then show ?thesis .
  next
    case (Some r)
    from o [OF Some] obtain l where l: "l \<in> set (lines_of ?d)"
      and n: "7 \<le> length (split_on CHR '','' l)"
      and k: "''7'' = map strip (split_on CHR '','' l) ! 0"
      unfolding Let_def by blast
    from l have "l = ''7, short'' \<or> l = ?l3 \<or> l = ''1, Y, x, 9'' \<or> l = ?l0"
      unfolding ls by simp
    then show ?thesis
    proof (elim disjE)
      assume "l = ''7, short''"
      with n h2 show ?thesis by simp
    next
      assume "l = ?l3"
      with k have "''7'' = ''3''" by (simp only: k3)
      then show ?thesis by simp
    next
      assume "l = ''1, Y, x, 9''"
      with n n1 show ?thesis by simp
    next
      assume "l = ?l0"
      with k have "''7'' = ''0''" by (simp only: k0)
      then show ?thesis by simp
    qed
  qed
  have c6: "\<exists>s. parse_gpu_data ?d = Inr s \<and>
        ''3'' \<in> fst ` set s \<and> ''0'' \<in> fst ` set s \<and> map_of s ''7'' = None"
    using p m3 m0 m7 by (intro exI [of _ s] conjI)
  have c2: "parse_line ''7, short'' [] = Inr []"
    by (rule t [THEN conjunct2, THEN conjunct2, THEN conjunct2, THEN conjunct2, THEN conjunct1,
          THEN mp, OF h2])
  have c3: "let parts = map strip (split_on CHR '','' ?l3)
            in parse_line ?l3 [] =
               Inr (AList.update (parts ! 0)
                      \<lparr>name = parts ! 1,
                       temperature = to_int (parts ! 2),
                       utilization = to_int (parts ! 3),
                       memory_used = to_int (parts ! 4),
                       memory_total = to_int (parts ! 5),
                       power_draw = to_float (parts ! 6)\<rparr> [])"
    by (rule u [THEN conjunct2, THEN conjunct2, THEN conjunct2, THEN conjunct2, THEN conjunct2,
          THEN mp, OF h3])
  have v: "(let parts = map strip (split_on CHR '','' ?l3)
            in Inr (AList.update (parts ! 0)
                      \<lparr>name = parts ! 1,
                       temperature = to_int (parts ! 2),
                       utilization = to_int (parts ! 3),
                       memory_used = to_int (parts ! 4),
                       memory_total = to_int (parts ! 5),
                       power_draw = to_float (parts ! 6)\<rparr> []))
           = (Inr [(''3'', \<lparr>name = ''Z'', temperature = Some 40, utilization = Some 5,
                   memory_used = Some 6, memory_total = Some 7,
                   power_draw = Some (Fin False 4785074604081152 (- 49))\<rparr>)] :: py_error + sample)"
    by code_simp
  have c4: "parse_line ?l3 [] =
     Inr [(''3'', \<lparr>name = ''Z'', temperature = Some 40, utilization = Some 5,
                   memory_used = Some 6, memory_total = Some 7,
                   power_draw = Some (Fin False 4785074604081152 (- 49))\<rparr>)]"
    using c3 unfolding Let_def v [unfolded Let_def] .
  show ?thesis
    by (intro conjI) (rule c1 c5 c6 h2 c2 h3 c4)+
qed

text \<open>
  C10. When several lines of seven or more fields carry the same id, the sample has
  one record for that id, the one of the last such line: the keys of the sample are
  distinct, an id is mapped to the record of the last line that carries it, whatever
  the other lines are, and no exception is raised.
\<close>

theorem parse_gpu_data_last_wins:
  "\<exists>s. parse_gpu_data data = Inr s \<and> distinct (map fst s) \<and>
       (\<forall>pre line post k r.
          lines_of data = pre @ line # post \<and> line_record line = Some (k, r) \<and>
          (\<forall>l \<in> set post. \<forall>r'. line_record l \<noteq> Some (k, r'))
          \<longrightarrow> map_of s k = Some r) \<and>
       (\<forall>k. (\<forall>l \<in> set (lines_of data). \<forall>r. line_record l \<noteq> Some (k, r))
          \<longrightarrow> map_of s k = None)"
proof -
  let ?s = "fold add_record (lines_of data) []"
  have eq: "parse_gpu_data data = Inr ?s"
    by (rule parse_gpu_data_eq)
  have d: "distinct (map fst ?s)"
    by (rule distinct_fold_add_record) simp
  have m: "map_of ?s = map_of (rev (List.map_filter line_record (lines_of data)))"
    by (simp add: map_of_fold_add_record)
  have last: "map_of ?s k = Some r"
    if "lines_of data = pre @ line # post" "line_record line = Some (k, r)"
       "\<forall>l \<in> set post. \<forall>r'. line_record l \<noteq> Some (k, r')"
    for pre line post k r
    using that by (rule fold_add_record_last)
  have none: "map_of ?s k = None"
    if "\<forall>l \<in> set (lines_of data). \<forall>r. line_record l \<noteq> Some (k, r)" for k
    using that by (simp add: m map_of_rev_records_None)
  show ?thesis
    using eq d last none by blast
qed

theorem parse_gpu_data_last_wins_witness:
  "\<exists>s. parse_gpu_data (''0, A, 1, 2, 3, 4, 5'' @ [CHR 0x0A] @ ''0, B, 6, 7, 8, 9, 10'') = Inr s \<and>
       map_of s ''0'' = Some \<lparr>name = ''B'', temperature = Some 6, utilization = Some 7,
                   memory_used = Some 8, memory_total = Some 9,
                   power_draw = Some (Fin False 5629499534213120 (- 49))\<rparr>"
proof -
  let ?d = "''0, A, 1, 2, 3, 4, 5'' @ [CHR 0x0A] @ ''0, B, 6, 7, 8, 9, 10''"
  let ?r = "\<lparr>name = ''B'', temperature = Some 6, utilization = Some 7,
                   memory_used = Some 8, memory_total = Some 9,
                   power_draw = Some (Fin False 5629499534213120 (- 49))\<rparr>"
  have l: "lines_of ?d = [''0, A, 1, 2, 3, 4, 5''] @ ''0, B, 6, 7, 8, 9, 10'' # []"
    by code_simp
  have r: "line_record ''0, B, 6, 7, 8, 9, 10'' = Some (''0'', ?r)"
    by code_simp
  from parse_gpu_data_last_wins [of ?d] obtain s where
    s: "parse_gpu_data ?d = Inr s"
    and w: "\<And>pre line post k r.
          lines_of ?d = pre @ line # post \<Longrightarrow> line_record line = Some (k, r) \<Longrightarrow>
          (\<forall>l \<in> set post. \<forall>r'. line_record l \<noteq> Some (k, r')) \<Longrightarrow> map_of s k = Some r"
    by blast
  have "map_of s ''0'' = Some ?r"
    using l r by (rule w) simp
  with s show ?thesis by blast
qed



text \<open>
  C2. The parser does not clamp the utilization: it stores what \<^verbatim>\<open>to_int\<close> reads, so
  a source value of 150 is stored as 150 and one of -5 as -5.
\<close>

theorem parsed_utilization_not_clamped:
  "parse_gpu_data (''0, X, 50, 150, 1, 2, 3'' @ [CHR 0x0A] @ ''1, Y, 50, -5, 1, 2, 3'') =
     Inr [(''0'', \<lparr>name = ''X'', temperature = Some 50, utilization = Some 150,
                   memory_used = Some 1, memory_total = Some 2,
                   power_draw = Some (Fin False 6755399441055744 (- 51))\<rparr>),
          (''1'', \<lparr>name = ''Y'', temperature = Some 50, utilization = Some (- 5),
                   memory_used = Some 1, memory_total = Some 2,
                   power_draw = Some (Fin False 6755399441055744 (- 51))\<rparr>)]"
  by code_simp

text \<open>
  C2, as the code has it. The record keeps the utilization that \<^verbatim>\<open>to_int\<close> reads from
  the fourth field, which for the decimal digits of an integer of magnitude below
  \<open>2 ^ 53\<close> is that integer, whatever its size or sign; the clamp is applied when
  the card is drawn, to the value of the utilization bar, which is always in the
  range from 0 to 100 (100 for a larger utilization, 0 for a negative one), while
  the label beside it prints the utilization as stored.
\<close>

theorem utilization_clamped_on_display:
  "(7 \<le> length (split_on CHR '','' line) \<longrightarrow>
      (\<exists>g' r. parse_line line g = Inr g' \<and>
              map_of g' (map strip (split_on CHR '','' line) ! 0) = Some r \<and>
              utilization r = to_int (map strip (split_on CHR '','' line) ! 3))) \<and>
   (\<forall>n. \<bar>n\<bar> < 2 ^ 53 \<longrightarrow> to_int (show_int n) = Some n) \<and>
   (update_gpu_card w info = Inr w' \<longrightarrow>
      0 \<le> util_bar w' \<and> util_bar w' \<le> 100 \<and>
      (\<forall>u. utilization info = Some u \<longrightarrow>
           util_bar w' = (if 100 < u then 100 else if u < 0 then 0 else u) \<and>
           util_text w' = show_int u @ ''%''))"
proof (intro conjI impI)
  assume "7 \<le> length (split_on CHR '','' line)"
  then show "\<exists>g' r. parse_line line g = Inr g' \<and>
              map_of g' (map strip (split_on CHR '','' line) ! 0) = Some r \<and>
              utilization r = to_int (map strip (split_on CHR '','' line) ! 3)"
    using parse_line_fields [of line g] by auto
next
  show "\<forall>n. \<bar>n\<bar> < 2 ^ 53 \<longrightarrow> to_int (show_int n) = Some n"
    by (simp add: to_int_show_int)
next
  assume u: "update_gpu_card w info = Inr w'"
  then show "0 \<le> util_bar w'" and "util_bar w' \<le> 100"
    by (auto simp: update_gpu_card_Inr)
  show "\<forall>u. utilization info = Some u \<longrightarrow>
           util_bar w' = (if 100 < u then 100 else if u < 0 then 0 else u) \<and>
           util_text w' = show_int u @ ''%''"
    using u by (auto simp: update_gpu_card_Inr)
qed

theorem utilization_clamped_on_display_witness:
  "7 \<le> length (split_on CHR '','' ''0, X, 50, 150, 1, 2, 3'') \<and>
   (\<exists>g' r. parse_line ''0, X, 50, 150, 1, 2, 3'' [] = Inr g' \<and>
           map_of g' ''0'' = Some r \<and> utilization r = Some 150) \<and>
   to_int (show_int (- 5)) = Some (- 5) \<and>
   (\<exists>w'. update_gpu_card
           (create_gpu_card ''0'' \<lparr>name = ''X'', temperature = Some 50, utilization = Some 150,
              memory_used = Some 1, memory_total = Some 2, power_draw = None\<rparr> 0)
           \<lparr>name = ''X'', temperature = Some 50, utilization = Some 150,
              memory_used = Some 1, memory_total = Some 2, power_draw = None\<rparr> = Inr w' \<and>
         util_bar w' = 100 \<and> util_text w' = ''150%'')"
proof -
  let ?l = "''0, X, 50, 150, 1, 2, 3''"
  let ?i = "\<lparr>name = ''X'', temperature = Some 50, utilization = Some 150,
             memory_used = Some 1, memory_total = Some 2, power_draw = None\<rparr>"
  let ?w = "\<lparr>row = 0, temp_text = ''50'' @ deg_c, temp_style = ''TempOk.TLabel'',
             util_bar = 100, util_text = ''150%'', mem_bar = 50,
             mem_text = ''1 / 2 MB (50%)'', power_text = ''-- W''\<rparr>"
  have h1: "7 \<le> length (split_on CHR '','' ?l)"
    by code_simp
  have h2: "update_gpu_card (create_gpu_card ''0'' ?i 0) ?i = Inr ?w"
    by code_simp
  have k: "map strip (split_on CHR '','' ?l) ! 0 = ''0''"
    by code_simp
  have v: "to_int (map strip (split_on CHR '','' ?l) ! 3) = Some 150"
    by code_simp
  note t = utilization_clamped_on_display [of ?l "[]" "create_gpu_card ''0'' ?i 0" ?i ?w]
  have c1: "\<exists>g' r. parse_line ?l [] = Inr g' \<and> map_of g' ''0'' = Some r \<and> utilization r = Some 150"
    using t [THEN conjunct1, THEN mp, OF h1] unfolding k v .
  have c2: "util_bar ?w = (if (100::int) < 150 then 100 else if (150::int) < 0 then 0 else 150) \<and>
            util_text ?w = show_int 150 @ ''%''"
    using t [THEN conjunct2, THEN conjunct2, THEN mp, OF h2, THEN conjunct2, THEN conjunct2,
        THEN spec, of 150]
    by simp
  have c4: "to_int (show_int (- 5)) = Some (- 5)"
    using t [THEN conjunct2, THEN conjunct1, THEN spec, of "- 5"] by simp
  have c3: "util_bar ?w = 100 \<and> util_text ?w = ''150%''"
    by simp
  show ?thesis
    using h1 c1 c4 h2 c3 by (intro conjI exI [of _ ?w]) simp_all
qed

text \<open>
  C6. A utilization or memory field that is not a number is not stored as 0: the
  record holds \<^verbatim>\<open>None\<close> for it.
\<close>

theorem unparsable_number_not_zero:
  "parse_gpu_data ''0, X, 50, N/A, [N/A], , 3'' =
     Inr [(''0'', \<lparr>name = ''X'', temperature = Some 50, utilization = None,
                   memory_used = None, memory_total = None,
                   power_draw = Some (Fin False 6755399441055744 (- 51))\<rparr>)]"
  by code_simp

text \<open>
  C6, as the code has it. When \<^verbatim>\<open>float\<close> rejects the utilization or a memory field
  of a line, the record holds \<^verbatim>\<open>None\<close> for that field; the name, the temperature
  and the power of the record, and the records of the other ids, are what they
  would be otherwise. The 0 appears when the card is drawn: an absent utilization
  gives an empty bar and the label \<^verbatim>\<open>0%\<close>, an absent memory figure is printed as 0,
  with a percentage of 0.
\<close>

theorem unparsable_number_is_absent:
  "(7 \<le> length (split_on CHR '','' line) \<longrightarrow>
      (\<exists>g' r. parse_line line g = Inr g' \<and>
         map_of g' (map strip (split_on CHR '','' line) ! 0) = Some r \<and>
         (py_float (map strip (split_on CHR '','' line) ! 3) = Inl e \<longrightarrow> utilization r = None) \<and>
         (py_float (map strip (split_on CHR '','' line) ! 4) = Inl e \<longrightarrow> memory_used r = None) \<and>
         (py_float (map strip (split_on CHR '','' line) ! 5) = Inl e \<longrightarrow> memory_total r = None) \<and>
         name r = map strip (split_on CHR '','' line) ! 1 \<and>
         temperature r = to_int (map strip (split_on CHR '','' line) ! 2) \<and>
         power_draw r = to_float (map strip (split_on CHR '','' line) ! 6) \<and>
         (\<forall>k. k \<noteq> map strip (split_on CHR '','' line) ! 0 \<longrightarrow> map_of g' k = map_of g k))) \<and>
   (update_gpu_card w info = Inr w' \<longrightarrow>
      (utilization info = None \<longrightarrow> util_bar w' = 0 \<and> util_text w' = ''0%'') \<and>
      (memory_used info = None \<longrightarrow>
         mem_bar w' = 0 \<and>
         mem_text w' = ''0 / ''
           @ show_int (if 0 < or_zero (memory_total info) then or_zero (memory_total info) else 0)
           @ '' MB (0%)'') \<and>
      (memory_total info = None \<longrightarrow>
         mem_bar w' = 0 \<and>
         mem_text w' = show_int (or_zero (memory_used info)) @ '' / 0 MB (0%)''))"
proof (intro conjI impI)
  assume "7 \<le> length (split_on CHR '','' line)"
  then show "\<exists>g' r. parse_line line g = Inr g' \<and>
         map_of g' (map strip (split_on CHR '','' line) ! 0) = Some r \<and>
         (py_float (map strip (split_on CHR '','' line) ! 3) = Inl e \<longrightarrow> utilization r = None) \<and>
         (py_float (map strip (split_on CHR '','' line) ! 4) = Inl e \<longrightarrow> memory_used r = None) \<and>
         (py_float (map strip (split_on CHR '','' line) ! 5) = Inl e \<longrightarrow> memory_total r = None) \<and>
         name r = map strip (split_on CHR '','' line) ! 1 \<and>
         temperature r = to_int (map strip (split_on CHR '','' line) ! 2) \<and>
         power_draw r = to_float (map strip (split_on CHR '','' line) ! 6) \<and>
         (\<forall>k. k \<noteq> map strip (split_on CHR '','' line) ! 0 \<longrightarrow> map_of g' k = map_of g k)"
    using parse_line_fields [of line g] by (auto simp: to_int_fails)
next
  assume "update_gpu_card w info = Inr w'" and "utilization info = None"
  then show "util_bar w' = 0" and "util_text w' = ''0%''"
    by (auto simp: update_gpu_card_Inr show_int_def show_digit_def)
next
  assume u: "update_gpu_card w info = Inr w'" and n: "memory_used info = None"
  have z: "mem_pct 0 t = Inr 0" for t
    by (cases "t = 0") (simp_all add: mem_pct_zero_used)
  have s0: "show_int 0 = ''0''"
    by (simp add: show_int_def show_digit_def)
  from u n show "mem_bar w' = 0"
    by (auto simp: update_gpu_card_Inr z)
  from u n show "mem_text w' = ''0 / ''
           @ show_int (if 0 < or_zero (memory_total info) then or_zero (memory_total info) else 0)
           @ '' MB (0%)''"
    by (auto simp: update_gpu_card_Inr z s0)
next
  assume u: "update_gpu_card w info = Inr w'" and n: "memory_total info = None"
  have s0: "show_int 0 = ''0''"
    by (simp add: show_int_def show_digit_def)
  from u n show "mem_bar w' = 0"
    by (auto simp: update_gpu_card_Inr)
  from u n show "mem_text w' = show_int (or_zero (memory_used info)) @ '' / 0 MB (0%)''"
    by (auto simp: update_gpu_card_Inr s0)
qed

theorem unparsable_number_is_absent_witness:
  "7 \<le> length (split_on CHR '','' ''0, X, 50, N/A, [N/A], , 3'') \<and>
   py_float ''N/A'' = Inl ValueError \<and> py_float ''[N/A]'' = Inl ValueError \<and>
   py_float [] = Inl ValueError \<and>
   (\<exists>g' r. parse_line ''0, X, 50, N/A, [N/A], , 3'' [] = Inr g' \<and>
           map_of g' ''0'' = Some r \<and> utilization r = None \<and> memory_used r = None \<and>
           memory_total r = None \<and> name r = ''X'' \<and> temperature r = Some 50) \<and>
   (\<exists>w'. update_gpu_card
           (create_gpu_card ''0'' \<lparr>name = ''X'', temperature = Some 50, utilization = None,
              memory_used = None, memory_total = None, power_draw = None\<rparr> 0)
           \<lparr>name = ''X'', temperature = Some 50, utilization = None,
              memory_used = None, memory_total = None, power_draw = None\<rparr> = Inr w' \<and>
         util_bar w' = 0 \<and> util_text w' = ''0%'' \<and> mem_bar w' = 0 \<and>
         mem_text w' = ''0 / 0 MB (0%)'')"
proof -
  let ?l = "''0, X, 50, N/A, [N/A], , 3''"
  let ?i = "\<lparr>name = ''X'', temperature = Some 50, utilization = None,
             memory_used = None, memory_total = None, power_draw = None\<rparr>"
  let ?w = "\<lparr>row = 0, temp_text = ''50'' @ deg_c, temp_style = ''TempOk.TLabel'',
             util_bar = 0, util_text = ''0%'', mem_bar = 0,
             mem_text = ''0 / 0 MB (0%)'', power_text = ''-- W''\<rparr>"
  have h1: "7 \<le> length (split_on CHR '','' ?l)"
    by code_simp
  have h2: "update_gpu_card (create_gpu_card ''0'' ?i 0) ?i = Inr ?w"
    by code_simp
  have f: "map strip (split_on CHR '','' ?l) = [''0'', ''X'', ''50'', ''N/A'', ''[N/A]'', [], ''3'']"
    by code_simp
  have p3: "py_float ''N/A'' = Inl ValueError"
    by code_simp
  have p4: "py_float ''[N/A]'' = Inl ValueError"
    by code_simp
  have p5: "py_float [] = Inl ValueError"
    by code_simp
  have t2: "to_int ''50'' = Some 50"
    by code_simp
  note t = unparsable_number_is_absent
    [of ?l "[]" ValueError "create_gpu_card ''0'' ?i 0" ?i ?w]
  have c1: "\<exists>g' r. parse_line ?l [] = Inr g' \<and>
           map_of g' ''0'' = Some r \<and> utilization r = None \<and> memory_used r = None \<and>
           memory_total r = None \<and> name r = ''X'' \<and> temperature r = Some 50"
    using t [THEN conjunct1, THEN mp, OF h1] p3 p4 p5 t2 unfolding f by auto
  have c2: "util_bar ?w = 0 \<and> util_text ?w = ''0%''"
    using t [THEN conjunct2, THEN mp, OF h2, THEN conjunct1] by simp
  have c3: "mem_bar ?w = 0 \<and> mem_text ?w = ''0 / 0 MB (0%)''"
    by simp
  show ?thesis
    using h1 p3 p4 p5 c1 h2 c2 c3 by (intro conjI exI [of _ ?w]) simp_all
qed

section \<open>Claims about the cards\<close>

text \<open>
  C7. The memory percentage is not rounded: for 2 MB used of 3 MB the code shows 66,
  where rounding \<open>2 / 3 * 100\<close> gives 67.
\<close>

theorem mem_pct_not_rounded:
  "mem_pct 2 3 = Inr 66 \<and> round ((2::rat) / 3 * 100) = 67 \<and>
   update_gpu_card
     (create_gpu_card ''0'' \<lparr>name = ''X'', temperature = None, utilization = None,
        memory_used = Some 2, memory_total = Some 3, power_draw = None\<rparr> 0)
     \<lparr>name = ''X'', temperature = None, utilization = None,
        memory_used = Some 2, memory_total = Some 3, power_draw = None\<rparr> =
   Inr \<lparr>row = 0, temp_text = ''--'' @ deg_c, temp_style = ''Muted.TLabel'',
        util_bar = 0, util_text = ''0%'', mem_bar = 66,
        mem_text = ''2 / 3 MB (66%)'', power_text = ''-- W''\<rparr>"
proof (intro conjI)
  show "mem_pct 2 3 = Inr 66"
    by code_simp
  have "\<lfloor>(403::rat) / 6\<rfloor> = 67"
    by (rule floor_unique) simp_all
  then show "round ((2::rat) / 3 * 100) = 67"
    by (simp add: round_def)
  show "update_gpu_card
     (create_gpu_card ''0'' \<lparr>name = ''X'', temperature = None, utilization = None,
        memory_used = Some 2, memory_total = Some 3, power_draw = None\<rparr> 0)
     \<lparr>name = ''X'', temperature = None, utilization = None,
        memory_used = Some 2, memory_total = Some 3, power_draw = None\<rparr> =
   Inr \<lparr>row = 0, temp_text = ''--'' @ deg_c, temp_style = ''Muted.TLabel'',
        util_bar = 0, util_text = ''0%'', mem_bar = 66,
        mem_text = ''2 / 3 MB (66%)'', power_text = ''-- W''\<rparr>"
    by code_simp
qed

text \<open>
  C7, as the code has it. With a total of 0 (or an absent or negative total, which
  the card takes as 0) the percentage is 0, and the division never raises
  \<^verbatim>\<open>ZeroDivisionError\<close>. With another total it is the double
  \<^verbatim>\<open>(used / total) * 100\<close> truncated toward zero, and it lies between 0 and 100
  when the used memory is not negative and not above the total. The label of a card
  whose total is 0 reads \<^verbatim>\<open>used / 0 MB (0%)\<close>, so two such cards with different used
  memory have different labels.
\<close>

theorem mem_pct_truncates:
  "mem_pct u 0 = Inr 0 \<and>
   mem_pct u t \<noteq> Inl ZeroDivisionError \<and>
   (t \<noteq> 0 \<longrightarrow> mem_pct u t = Inr p \<longrightarrow>
      (\<exists>q. int_truediv u t = Inr q \<and>
           p = trunc (float_val (float_mul q (Fin False 100 0))))) \<and>
   (0 \<le> u \<longrightarrow> u \<le> t \<longrightarrow> (\<exists>r. mem_pct u t = Inr r \<and> 0 \<le> r \<and> r \<le> 100)) \<and>
   (update_gpu_card w info = Inr w' \<longrightarrow> or_zero (memory_total info) \<le> 0 \<longrightarrow>
      mem_bar w' = 0 \<and>
      mem_text w' = show_int (or_zero (memory_used info)) @ '' / 0 MB (0%)'') \<and>
   (show_int a @ '' / 0 MB (0%)'' = show_int b @ '' / 0 MB (0%)'' \<longrightarrow> a = b)"
proof (intro conjI impI)
  show "mem_pct u 0 = Inr 0"
    by simp
  show "mem_pct u t \<noteq> Inl ZeroDivisionError"
    by (rule mem_pct_no_zero_division)
  show "\<exists>q. int_truediv u t = Inr q \<and> p = trunc (float_val (float_mul q (Fin False 100 0)))"
    if "t \<noteq> 0" "mem_pct u t = Inr p"
    using that by (rule mem_pct_is_trunc)
  show "\<exists>r. mem_pct u t = Inr r \<and> 0 \<le> r \<and> r \<le> 100" if "0 \<le> u" "u \<le> t"
    using that by (rule mem_pct_range)
  show "mem_bar w' = 0" if "update_gpu_card w info = Inr w'" "or_zero (memory_total info) \<le> 0"
    using that by (auto simp: update_gpu_card_Inr)
  show "mem_text w' = show_int (or_zero (memory_used info)) @ '' / 0 MB (0%)''"
    if "update_gpu_card w info = Inr w'" "or_zero (memory_total info) \<le> 0"
    using that by (auto simp: update_gpu_card_Inr)
  show "a = b" if "show_int a @ '' / 0 MB (0%)'' = show_int b @ '' / 0 MB (0%)''"
    using that by (simp add: show_int_inj)
qed

theorem mem_pct_truncates_witness:
  "mem_pct 29 100 = Inr 28 \<and>
   (\<exists>q. int_truediv 29 100 = Inr q \<and>
        (28::int) = trunc (float_val (float_mul q (Fin False 100 0)))) \<and>
   (\<exists>r. mem_pct 1000 8000 = Inr r \<and> 0 \<le> r \<and> r \<le> 100) \<and>
   or_zero (memory_total \<lparr>name = ''X'', temperature = None, utilization = None,
        memory_used = Some 512, memory_total = Some 0, power_draw = None\<rparr>) \<le> 0 \<and>
   update_gpu_card
     (create_gpu_card ''0'' \<lparr>name = ''X'', temperature = None, utilization = None,
        memory_used = Some 512, memory_total = Some 0, power_draw = None\<rparr> 0)
     \<lparr>name = ''X'', temperature = None, utilization = None,
        memory_used = Some 512, memory_total = Some 0, power_draw = None\<rparr> =
   Inr \<lparr>row = 0, temp_text = ''--'' @ deg_c, temp_style = ''Muted.TLabel'',
        util_bar = 0, util_text = ''0%'', mem_bar = 0,
        mem_text = ''512 / 0 MB (0%)'', power_text = ''-- W''\<rparr> \<and>
   show_int 512 @ '' / 0 MB (0%)'' \<noteq> show_int 0 @ '' / 0 MB (0%)''"
proof -
  let ?i = "\<lparr>name = ''X'', temperature = None, utilization = None,
        memory_used = Some 512, memory_total = Some 0, power_draw = None\<rparr>"
  let ?w = "\<lparr>row = 0, temp_text = ''--'' @ deg_c, temp_style = ''Muted.TLabel'',
        util_bar = 0, util_text = ''0%'', mem_bar = 0,
        mem_text = ''512 / 0 MB (0%)'', power_text = ''-- W''\<rparr>"
  have h1: "mem_pct 29 100 = Inr 28"
    by code_simp
  have h2: "(100::int) \<noteq> 0" "(0::int) \<le> 1000" "(1000::int) \<le> 8000"
    by simp_all
  have h3: "update_gpu_card (create_gpu_card ''0'' ?i 0) ?i = Inr ?w"
    by code_simp
  have h4: "or_zero (memory_total ?i) \<le> 0"
    by simp
  note t = mem_pct_truncates [of 29 100 28 "create_gpu_card ''0'' ?i 0" ?i ?w 512 0]
  note u = mem_pct_truncates [of 1000 8000]
  have c1: "\<exists>q. int_truediv 29 100 = Inr q \<and>
        (28::int) = trunc (float_val (float_mul q (Fin False 100 0)))"
    by (rule t [THEN conjunct2, THEN conjunct2, THEN conjunct1, THEN mp, THEN mp, OF h2(1) h1])
  have c2: "\<exists>r. mem_pct 1000 8000 = Inr r \<and> 0 \<le> r \<and> r \<le> 100"
    by (rule u [THEN conjunct2, THEN conjunct2, THEN conjunct2, THEN conjunct1, THEN mp, THEN mp,
          OF h2(2) h2(3)])
  have c3: "mem_bar ?w = 0 \<and> mem_text ?w = show_int (or_zero (memory_used ?i)) @ '' / 0 MB (0%)''"
    by (rule t [THEN conjunct2, THEN conjunct2, THEN conjunct2, THEN conjunct2, THEN conjunct1,
          THEN mp, THEN mp, OF h3 h4])
  have c4: "show_int 512 @ '' / 0 MB (0%)'' \<noteq> show_int 0 @ '' / 0 MB (0%)''"
    using t [THEN conjunct2, THEN conjunct2, THEN conjunct2, THEN conjunct2, THEN conjunct2]
    by auto
  show ?thesis
    using h1 c1 c2 h4 h3 c4 by (intro conjI)
qed

section \<open>Claims about the monitoring loop\<close>

text \<open>
  C5. The loop does not clamp the interval: with an interval of 0 it waits 0 seconds
  and goes on, and with a negative interval it stops.
\<close>

theorem interval_not_clamped:
  "monitor_loop 1000000 [(True, Inr 0), (False, Inr 0)] = [Refresh_scheduled, Sleep 0] \<and>
   monitor_loop 1000000 [(True, Inr (- 3)), (True, Inr 5)]
     = [Refresh_scheduled, Error_printed ValueError]"
  by (simp add: time_sleep_def)

text \<open>
  C5, as the code has it. A turn of the loop waits exactly the number of seconds it
  reads from the interval variable when that number is not negative and not above
  what \<^verbatim>\<open>time.sleep\<close> accepts; a negative number makes \<^verbatim>\<open>time.sleep\<close> raise
  \<^verbatim>\<open>ValueError\<close>, which the loop prints before it ends. So every wait of the loop is
  a number it has read, and is not negative.
\<close>

theorem monitor_loop_waits_as_read:
  "(0 \<le> n \<longrightarrow> n \<le> tmax \<longrightarrow>
      monitor_loop tmax ((True, Inr n) # rest) = Refresh_scheduled # Sleep n # monitor_loop tmax rest) \<and>
   (n < 0 \<longrightarrow>
      monitor_loop tmax ((True, Inr n) # rest) = [Refresh_scheduled, Error_printed ValueError]) \<and>
   (Sleep d \<in> set (monitor_loop tmax env) \<longrightarrow>
      0 \<le> d \<and> d \<le> tmax \<and> (\<exists>m. (m, Inr d) \<in> set env))"
  using monitor_loop_sleeps [of d tmax env]
  by (simp add: monitor_loop_step del: monitor_loop.simps)

theorem monitor_loop_waits_as_read_witness:
  "monitor_loop 1000000 [(True, Inr 0), (True, Inr 5), (True, Inr (- 1)), (True, Inr 2)] =
     [Refresh_scheduled, Sleep 0, Refresh_scheduled, Sleep 5, Refresh_scheduled,
      Error_printed ValueError]"
proof -
  note a = monitor_loop_waits_as_read [of 0 1000000 "[(True, Inr 5), (True, Inr (- 1)), (True, Inr 2)]",
      THEN conjunct1, THEN mp, THEN mp]
  note b = monitor_loop_waits_as_read [of 5 1000000 "[(True, Inr (- 1)), (True, Inr 2)]",
      THEN conjunct1, THEN mp, THEN mp]
  note c = monitor_loop_waits_as_read [of "- 1" 1000000 "[(True, Inr 2)]",
      THEN conjunct2, THEN conjunct1, THEN mp]
  have "monitor_loop 1000000 [(True, Inr (- 1)), (True, Inr 2)]
        = [Refresh_scheduled, Error_printed ValueError]"
    by (rule c) simp
  moreover have "monitor_loop 1000000 [(True, Inr 5), (True, Inr (- 1)), (True, Inr 2)]
        = Refresh_scheduled # Sleep 5 # monitor_loop 1000000 [(True, Inr (- 1)), (True, Inr 2)]"
    by (rule b) simp_all
  moreover have "monitor_loop 1000000 [(True, Inr 0), (True, Inr 5), (True, Inr (- 1)), (True, Inr 2)]
        = Refresh_scheduled # Sleep 0 # monitor_loop 1000000 [(True, Inr 5), (True, Inr (- 1)), (True, Inr 2)]"
    by (rule a) simp_all
  ultimately show ?thesis
    by (simp only:)
qed

section \<open>Claims about the reconciliation\<close>

text \<open>
  C1. Not every parsed sample can be reconciled: when a rebuild is needed and an id
  is not an integer literal, \<^verbatim>\<open>int(x)\<close> in the sort key raises \<^verbatim>\<open>ValueError\<close>; and a
  record whose memory percentage overflows (a used memory of \<open>2 ^ 1023\<close> MB, which a
  field such as \<^verbatim>\<open>1e308\<close> is close to) makes the drawing of its card raise
  \<^verbatim>\<open>OverflowError\<close>.
\<close>

theorem unsortable_sample_raises:
  "ebind (parse_gpu_data ''GPU-0, X, 50, 10, 1, 2, 3'') (build_or_update_dashboard [])
     = Inl ValueError \<and>
   build_or_update_dashboard []
     [(''0'', \<lparr>name = ''X'', temperature = Some 50, utilization = Some 10,
               memory_used = Some (2 ^ 1023), memory_total = Some 1, power_draw = None\<rparr>)]
     = Inl OverflowError"
proof
  show "ebind (parse_gpu_data ''GPU-0, X, 50, 10, 1, 2, 3'') (build_or_update_dashboard [])
     = Inl ValueError"
    by code_simp
  let ?r = "\<lparr>name = ''X'', temperature = Some 50, utilization = Some 10,
               memory_used = Some (2 ^ 1023), memory_total = Some 1, power_draw = None\<rparr>"
  have "\<forall>k \<in> set (map fst [(''0'', ?r)]). numeric_id k"
    by code_simp
  then have s: "sorted_ids [(''0'', ?r)] = Inr (sort_key id_num (map fst [(''0'', ?r)]))"
    by (rule sorted_ids_numeric)
  have u: "update_gpu_card w ?r = Inl OverflowError" for w
    using mem_pct_overflow by (simp add: update_gpu_card_def Let_def)
  show "build_or_update_dashboard [] [(''0'', ?r)] = Inl OverflowError"
    using s u by (simp add: build_or_update_dashboard_def)
qed

text \<open>
  C1, as the code has it, for the cards the dashboard has (their keys are the known
  ids) and a sample that \<^verbatim>\<open>parse_gpu_data\<close> returns, all of whose records can be drawn.
  The numbers of such a sample are values of \<^verbatim>\<open>int(float(v))\<close>, of 309 digits at most,
  so that printing them never meets the limit on the digits of a number. When the
  two key sets are equal the dashboard is not cleared: every card stays in its place
  and is updated with the new record of its id, in the order of the sample. When
  they differ and every id of the sample is an integer literal that \<^verbatim>\<open>int\<close> accepts
  (of 4300 digits at most, with nothing around it but the whitespace \<^verbatim>\<open>int\<close> skips),
  the dashboard is cleared and one card per id is created, in ascending order of the
  numeric values of the ids whatever their order in the sample, in the rows 0, 1, 2
  and so on, and every card then shows the record of its id. When they differ and
  \<^verbatim>\<open>int\<close> rejects some id, the call raises \<^verbatim>\<open>ValueError\<close>.
\<close>

theorem build_or_update_dashboard_reconciles:
  assumes p: "parse_gpu_data data = Inr sample" and dc: "distinct (map fst cards)"
    and r: "\<forall>(k, info) \<in> set sample. renders info"
  shows
    "(set (map fst cards) = set (map fst sample) \<longrightarrow>
        (\<exists>cs. build_or_update_dashboard cards sample = Inr (cs, map Update (map fst sample)) \<and>
              map fst cs = map fst cards \<and>
              (\<forall>k w. map_of cards k = Some w \<longrightarrow>
                 (\<exists>info w'. map_of sample k = Some info \<and> update_gpu_card w info = Inr w' \<and>
                            map_of cs k = Some w')))) \<and>
     (set (map fst cards) \<noteq> set (map fst sample) \<longrightarrow>
      (\<forall>k \<in> set (map fst sample). numeric_id k) \<longrightarrow>
        (\<exists>cs. build_or_update_dashboard cards sample =
                Inr (cs, Clear # map (\<lambda>(i, k). Create k i) (List.enumerate 0 (map fst cs))
                         @ map Update (map fst sample)) \<and>
              map fst cs = sort_key id_num (map fst sample) \<and>
              sorted (map id_num (map fst cs)) \<and>
              mset (map fst cs) = mset (map fst sample) \<and>
              map (\<lambda>(k, w). row w) cs = [0..<length sample] \<and>
              (\<forall>k info. map_of sample k = Some info \<longrightarrow>
                 (\<exists>w. map_of cs k = Some w \<and> update_gpu_card w info = Inr w)))) \<and>
     (set (map fst cards) \<noteq> set (map fst sample) \<longrightarrow>
      \<not> (\<forall>k \<in> set (map fst sample). numeric_id k) \<longrightarrow>
        build_or_update_dashboard cards sample = Inl ValueError)"
proof -
  have ds: "distinct (map fst sample)"
    using p by (rule parse_gpu_data_distinct)
  show ?thesis
  proof (intro conjI impI)
  assume eq: "set (map fst cards) = set (map fst sample)"
  let ?f = "\<lambda>k w. case map_of sample k of None \<Rightarrow> w | Some info \<Rightarrow> redraw w info"
  let ?cs = "map (\<lambda>(k, w). (k, ?f k w)) cards"
  have b: "build_or_update_dashboard cards sample = Inr (?cs, map Update (map fst sample))"
    using dc ds r eq by (rule dashboard_update)
  have keys: "map fst ?cs = map fst cards"
    by (rule keys_redrawn)
  have each: "\<exists>info w'. map_of sample k = Some info \<and> update_gpu_card w info = Inr w' \<and>
                 map_of ?cs k = Some w'"
    if "map_of cards k = Some w" for k w
  proof -
    from that have "k \<in> set (map fst cards)"
      by (auto dest: map_of_SomeD intro: rev_image_eqI)
    with eq have "k \<in> fst ` set sample"
      by simp
    then obtain info where info: "map_of sample k = Some info"
      using in_keys_map_of by fastforce
    then have "(k, info) \<in> set sample"
      by (rule map_of_SomeD)
    with r have "renders info"
      by auto
    then have "update_gpu_card w info = Inr (redraw w info)"
      by (rule update_gpu_card_redraw)
    moreover have "map_of ?cs k = Some (?f k w)"
      using that by (rule map_of_redrawn)
    ultimately show ?thesis
      using info by simp
  qed
  show "\<exists>cs. build_or_update_dashboard cards sample = Inr (cs, map Update (map fst sample)) \<and>
              map fst cs = map fst cards \<and>
              (\<forall>k w. map_of cards k = Some w \<longrightarrow>
                 (\<exists>info w'. map_of sample k = Some info \<and> update_gpu_card w info = Inr w' \<and>
                            map_of cs k = Some w'))"
  proof (intro exI [of _ ?cs] conjI allI impI)
    show "build_or_update_dashboard cards sample = Inr (?cs, map Update (map fst sample))"
      by (rule b)
    show "map fst ?cs = map fst cards"
      by (rule keys)
    show "\<exists>info w'. map_of sample k = Some info \<and> update_gpu_card w info = Inr w' \<and>
                 map_of ?cs k = Some w'"
      if "map_of cards k = Some w" for k w
      using that by (rule each)
  qed
next
  assume ne: "set (map fst cards) \<noteq> set (map fst sample)"
    and n: "\<forall>k \<in> set (map fst sample). numeric_id k"
  let ?ids = "sort_key id_num (map fst sample)"
  let ?g = "\<lambda>i k. redraw (create_gpu_card k (the (map_of sample k)) i) (the (map_of sample k))"
  let ?cs = "map (\<lambda>(i, k). (k, ?g i k)) (List.enumerate 0 ?ids)"
  have keys: "map fst ?cs = ?ids"
  proof -
    have "map fst ?cs = map snd (List.enumerate 0 ?ids)"
      by (simp add: split_def o_def)
    then show ?thesis
      by simp
  qed
  have b: "build_or_update_dashboard cards sample =
         Inr (?cs, Clear # map (\<lambda>(i, k). Create k i) (List.enumerate 0 (map fst ?cs))
                   @ map Update (map fst sample))"
    unfolding keys using ds r n ne by (rule dashboard_rebuild)
  have rows: "map (\<lambda>(k, w). row w) ?cs = [0..<length sample]"
  proof -
    have "map (\<lambda>(k, w). row w) ?cs = map fst (List.enumerate 0 ?ids)"
      by (simp add: split_def o_def redraw_row create_gpu_card_def)
    then show ?thesis
      by simp
  qed
  have each: "\<exists>w. map_of ?cs k = Some w \<and> update_gpu_card w info = Inr w"
    if "map_of sample k = Some info" for k info
  proof -
    from that have m: "(k, info) \<in> set sample"
      by (rule map_of_SomeD)
    with r have ren: "renders info"
      by auto
    from m have "k \<in> set ?ids"
      by (auto intro: rev_image_eqI)
    then obtain i where "(i, k) \<in> set (List.enumerate 0 ?ids)"
      using in_enumerate by fastforce
    then have "(k, ?g i k) \<in> set ?cs"
      by force
    moreover have "distinct (map fst ?cs)"
      using ds by (simp only: keys distinct_sort)
    ultimately have "map_of ?cs k = Some (?g i k)"
      by (simp only: map_of_eq_Some_iff)
    moreover have "update_gpu_card (?g i k) info = Inr (?g i k)"
      using that ren by (simp add: redraw_shows)
    ultimately show ?thesis
      by blast
  qed
  show "\<exists>cs. build_or_update_dashboard cards sample =
                Inr (cs, Clear # map (\<lambda>(i, k). Create k i) (List.enumerate 0 (map fst cs))
                         @ map Update (map fst sample)) \<and>
              map fst cs = sort_key id_num (map fst sample) \<and>
              sorted (map id_num (map fst cs)) \<and>
              mset (map fst cs) = mset (map fst sample) \<and>
              map (\<lambda>(k, w). row w) cs = [0..<length sample] \<and>
              (\<forall>k info. map_of sample k = Some info \<longrightarrow>
                 (\<exists>w. map_of cs k = Some w \<and> update_gpu_card w info = Inr w))"
  proof (intro exI [of _ ?cs] conjI allI impI)
    show "build_or_update_dashboard cards sample =
         Inr (?cs, Clear # map (\<lambda>(i, k). Create k i) (List.enumerate 0 (map fst ?cs))
                   @ map Update (map fst sample))"
      by (rule b)
    show "map fst ?cs = sort_key id_num (map fst sample)"
      by (rule keys)
    show "sorted (map id_num (map fst ?cs))"
      by (simp only: keys sorted_sort_key)
    show "mset (map fst ?cs) = mset (map fst sample)"
      by (simp only: keys mset_sort)
    show "map (\<lambda>(k, w). row w) ?cs = [0..<length sample]"
      by (rule rows)
    show "\<exists>w. map_of ?cs k = Some w \<and> update_gpu_card w info = Inr w"
      if "map_of sample k = Some info" for k info
      using that by (rule each)
  qed
next
  assume ne: "set (map fst cards) \<noteq> set (map fst sample)"
    and n: "\<not> (\<forall>k \<in> set (map fst sample). numeric_id k)"
  have "sorted_ids sample = Inl ValueError"
    using n by (rule sorted_ids_not_numeric)
  then show "build_or_update_dashboard cards sample = Inl ValueError"
    using ne by (simp add: build_or_update_dashboard_def)
  qed
qed

theorem build_or_update_dashboard_reconciles_witness:
  "parse_gpu_data (''2, B, 75, 42, 1000, 8000, -'' @ [CHR 0x0A] @ ''0, A, 85, 10, 2000, 8000, -''
                   @ [CHR 0x0A] @ ''10, C, -, -, -, -, -'') =
     Inr [(''2'', \<lparr>name = ''B'', temperature = Some 75, utilization = Some 42,
                      memory_used = Some 1000, memory_total = Some 8000, power_draw = None\<rparr>),
          (''0'', \<lparr>name = ''A'', temperature = Some 85, utilization = Some 10,
                      memory_used = Some 2000, memory_total = Some 8000, power_draw = None\<rparr>),
          (''10'', \<lparr>name = ''C'', temperature = None, utilization = None,
                      memory_used = None, memory_total = None, power_draw = None\<rparr>)] \<and>
   (\<exists>cs. build_or_update_dashboard []
            [(''2'', \<lparr>name = ''B'', temperature = Some 75, utilization = Some 42,
                      memory_used = Some 1000, memory_total = Some 8000, power_draw = None\<rparr>),
             (''0'', \<lparr>name = ''A'', temperature = Some 85, utilization = Some 10,
                      memory_used = Some 2000, memory_total = Some 8000, power_draw = None\<rparr>),
             (''10'', \<lparr>name = ''C'', temperature = None, utilization = None,
                      memory_used = None, memory_total = None, power_draw = None\<rparr>)]
          = Inr (cs, [Clear, Create ''0'' 0, Create ''2'' 1, Create ''10'' 2,
                      Update ''2'', Update ''0'', Update ''10'']) \<and>
         map fst cs = [''0'', ''2'', ''10''] \<and> map (\<lambda>(k, w). row w) cs = [0, 1, 2]) \<and>
   parse_gpu_data (''1, B, 75, 42, 1000, 8000, -'' @ [CHR 0x0A] @ ''0, A, 85, 10, 2000, 8000, -'') =
     Inr [(''1'', \<lparr>name = ''B'', temperature = Some 75, utilization = Some 42,
                      memory_used = Some 1000, memory_total = Some 8000, power_draw = None\<rparr>),
          (''0'', \<lparr>name = ''A'', temperature = Some 85, utilization = Some 10,
                      memory_used = Some 2000, memory_total = Some 8000, power_draw = None\<rparr>)] \<and>
   (\<exists>cs. build_or_update_dashboard
            [(''0'', create_gpu_card ''0'' \<lparr>name = ''A'', temperature = None, utilization = None,
                      memory_used = None, memory_total = None, power_draw = None\<rparr> 0),
             (''1'', create_gpu_card ''1'' \<lparr>name = ''B'', temperature = None, utilization = None,
                      memory_used = None, memory_total = None, power_draw = None\<rparr> 1)]
            [(''1'', \<lparr>name = ''B'', temperature = Some 75, utilization = Some 42,
                      memory_used = Some 1000, memory_total = Some 8000, power_draw = None\<rparr>),
             (''0'', \<lparr>name = ''A'', temperature = Some 85, utilization = Some 10,
                      memory_used = Some 2000, memory_total = Some 8000, power_draw = None\<rparr>)]
          = Inr (cs, [Update ''1'', Update ''0'']) \<and>
         map fst cs = [''0'', ''1'']) \<and>
   parse_gpu_data ''GPU-0, A, -, -, -, -, -'' =
     Inr [(''GPU-0'', \<lparr>name = ''A'', temperature = None, utilization = None,
                  memory_used = None, memory_total = None, power_draw = None\<rparr>)] \<and>
   build_or_update_dashboard []
     [(''GPU-0'', \<lparr>name = ''A'', temperature = None, utilization = None,
                  memory_used = None, memory_total = None, power_draw = None\<rparr>)]
     = Inl ValueError"
proof -
  let ?b = "\<lparr>name = ''B'', temperature = Some 75, utilization = Some 42,
             memory_used = Some 1000, memory_total = Some 8000, power_draw = None\<rparr>"
  let ?a = "\<lparr>name = ''A'', temperature = Some 85, utilization = Some 10,
             memory_used = Some 2000, memory_total = Some 8000, power_draw = None\<rparr>"
  let ?n = "\<lparr>name = ''C'', temperature = None, utilization = None,
             memory_used = None, memory_total = None, power_draw = None\<rparr>"
  let ?za = "\<lparr>name = ''A'', temperature = None, utilization = None,
             memory_used = None, memory_total = None, power_draw = None\<rparr>"
  let ?zb = "\<lparr>name = ''B'', temperature = None, utilization = None,
             memory_used = None, memory_total = None, power_draw = None\<rparr>"
  let ?s = "[(''2'', ?b), (''0'', ?a), (''10'', ?n)]"
  let ?c = "[(''0'', create_gpu_card ''0'' ?za 0), (''1'', create_gpu_card ''1'' ?zb 1)]"
  let ?t = "[(''1'', ?b), (''0'', ?a)]"
  let ?x = "[(''GPU-0'', ?za)]"
  let ?ds = "''2, B, 75, 42, 1000, 8000, -'' @ [CHR 0x0A] @ ''0, A, 85, 10, 2000, 8000, -''
             @ [CHR 0x0A] @ ''10, C, -, -, -, -, -''"
  let ?dt = "''1, B, 75, 42, 1000, 8000, -'' @ [CHR 0x0A] @ ''0, A, 85, 10, 2000, 8000, -''"
  let ?dx = "''GPU-0, A, -, -, -, -, -''"
  have ps: "parse_gpu_data ?ds = Inr ?s"
    by code_simp
  have pt: "parse_gpu_data ?dt = Inr ?t"
    by code_simp
  have px: "parse_gpu_data ?dx = Inr ?x"
    by code_simp
  have d0: "distinct (map fst ([] :: cards))"
    by simp
  have rs: "\<forall>(k, info) \<in> set ?s. renders info"
    and ns: "\<forall>k \<in> set (map fst ?s). numeric_id k"
    and es: "set (map fst ([] :: cards)) \<noteq> set (map fst ?s)"
    by code_simp+
  have dc: "distinct (map fst ?c)"
    and rt: "\<forall>(k, info) \<in> set ?t. renders info"
    and et: "set (map fst ?c) = set (map fst ?t)"
    by code_simp+
  have rx: "\<forall>(k, info) \<in> set ?x. renders info"
    and nx: "\<not> (\<forall>k \<in> set (map fst ?x). numeric_id k)"
    and ex: "set (map fst ([] :: cards)) \<noteq> set (map fst ?x)"
    by code_simp+
  have so: "sort_key id_num (map fst ?s) = [''0'', ''2'', ''10'']"
    by code_simp
  note rebuild = build_or_update_dashboard_reconciles [OF ps d0 rs, THEN conjunct2, THEN conjunct1,
      THEN mp, THEN mp, OF es ns]
  note update = build_or_update_dashboard_reconciles [OF pt dc rt, THEN conjunct1, THEN mp, OF et]
  note raise = build_or_update_dashboard_reconciles [OF px d0 rx, THEN conjunct2, THEN conjunct2,
      THEN mp, THEN mp, OF ex nx]
  from rebuild obtain cs where
    b: "build_or_update_dashboard [] ?s =
          Inr (cs, Clear # map (\<lambda>(i, k). Create k i) (List.enumerate 0 (map fst cs))
                   @ map Update (map fst ?s))"
    and k: "map fst cs = sort_key id_num (map fst ?s)"
    and w: "map (\<lambda>(k, w). row w) cs = [0..<length ?s]"
    by blast
  have k': "map fst cs = [''0'', ''2'', ''10'']"
    using k so by simp
  have "Clear # map (\<lambda>(i, k). Create k i) (List.enumerate 0 (map fst cs)) @ map Update (map fst ?s)
        = [Clear, Create ''0'' 0, Create ''2'' 1, Create ''10'' 2,
           Update ''2'', Update ''0'', Update ''10'']"
    by (simp add: k')
  with b have b': "build_or_update_dashboard [] ?s =
          Inr (cs, [Clear, Create ''0'' 0, Create ''2'' 1, Create ''10'' 2,
                    Update ''2'', Update ''0'', Update ''10''])"
    by simp
  have w': "map (\<lambda>(k, w). row w) cs = [0, 1, 2]"
    using w by (simp add: upt_rec)
  from update obtain cu where
    u: "build_or_update_dashboard ?c ?t = Inr (cu, map Update (map fst ?t))"
    and ku: "map fst cu = map fst ?c"
    by blast
  have u': "build_or_update_dashboard ?c ?t = Inr (cu, [Update ''1'', Update ''0''])"
    using u by simp
  have ku': "map fst cu = [''0'', ''1'']"
    using ku by simp
  have r1: "\<exists>cs. build_or_update_dashboard [] ?s =
          Inr (cs, [Clear, Create ''0'' 0, Create ''2'' 1, Create ''10'' 2,
                    Update ''2'', Update ''0'', Update ''10'']) \<and>
        map fst cs = [''0'', ''2'', ''10''] \<and> map (\<lambda>(k, w). row w) cs = [0, 1, 2]"
    by (intro exI [of _ cs] conjI) (rule b' k' w')+
  have r2: "\<exists>cs. build_or_update_dashboard ?c ?t = Inr (cs, [Update ''1'', Update ''0'']) \<and>
        map fst cs = [''0'', ''1'']"
    by (intro exI [of _ cu] conjI) (rule u' ku')+
  show ?thesis
    by (intro conjI) (rule ps r1 pt r2 px raise)+
qed

section \<open>Claims about the refresh cycle\<close>




section \<open>Temperature bands\<close>

text \<open>
  C9. The style of the temperature label is the severity band: \<^verbatim>\<open>Muted.TLabel\<close>
  (unknown) for an absent temperature, \<^verbatim>\<open>TempOk.TLabel\<close> (nominal) below 70,
  \<^verbatim>\<open>TempWarn.TLabel\<close> (warning) from 70 to 79, and \<^verbatim>\<open>TempHigh.TLabel\<close> (critical)
  from 80 on.
\<close>

theorem get_temp_style_bands:
  "get_temp_style None = ''Muted.TLabel'' \<and>
   (\<forall>t. (t < 70 \<longrightarrow> get_temp_style (Some t) = ''TempOk.TLabel'') \<and>
        (70 \<le> t \<and> t \<le> 79 \<longrightarrow> get_temp_style (Some t) = ''TempWarn.TLabel'') \<and>
        (80 \<le> t \<longrightarrow> get_temp_style (Some t) = ''TempHigh.TLabel''))"
  by (simp add: get_temp_style_def)

theorem get_temp_style_bands_witness:
  "(69::int) < 70 \<and> get_temp_style (Some 69) = ''TempOk.TLabel'' \<and>
   (70::int) \<le> 75 \<and> (75::int) \<le> 79 \<and> get_temp_style (Some 75) = ''TempWarn.TLabel'' \<and>
   (80::int) \<le> 85 \<and> get_temp_style (Some 85) = ''TempHigh.TLabel''"
proof -
  note b = get_temp_style_bands [THEN conjunct2, rule_format]
  have "get_temp_style (Some 69) = ''TempOk.TLabel''"
    using b [of 69, THEN conjunct1] by simp
  moreover have "get_temp_style (Some 75) = ''TempWarn.TLabel''"
    using b [of 75, THEN conjunct2, THEN conjunct1] by simp
  moreover have "get_temp_style (Some 85) = ''TempHigh.TLabel''"
    using b [of 85, THEN conjunct2, THEN conjunct2] by simp
  ultimately show ?thesis by simp
qed

end
